theory Spec2Isabelle
  imports Main "HOL-Library.Word"
begin

unbundle bit_operations_syntax

section \<open>The lossy QOI encoder of \<^verbatim>\<open>lossyqoi.c\<close>\<close>

subsection \<open>Data model\<close>

type_synonym u8 = "8 word"

text \<open>The opcode tags, as the \<^verbatim>\<open>#define\<close>s of the source give them (C \<^verbatim>\<open>int\<close> constants).\<close>

definition QOI_OP_INDEX :: int where "QOI_OP_INDEX = 0x00"
definition QOI_OP_DIFF :: int where "QOI_OP_DIFF = 0x40"
definition QOI_OP_LUMA :: int where "QOI_OP_LUMA = 0x80"
definition QOI_OP_RUN :: int where "QOI_OP_RUN = 0xc0"
definition QOI_OP_RGB :: int where "QOI_OP_RGB = 0xfe"
definition QOI_OP_RGBA :: int where "QOI_OP_RGBA = 0xff"

text \<open>\<^verbatim>\<open>typedef struct { uint8_t r, g, b, a; } qoi_rgba;\<close>\<close>

record qoi_rgba =
  r :: u8
  g :: u8
  b :: u8
  a :: u8

text \<open>
  \<^verbatim>\<open>qoi_encoder\<close>. The field \<open>file_out\<close> (\<^verbatim>\<open>file\<close> in the source) stands for
  the bytes written so far to the output stream behind the \<^verbatim>\<open>FILE *\<close>; \<open>run\<close> and \<open>lossiness\<close> are C \<^verbatim>\<open>int\<close>s
  (no arithmetic of the program takes them near the limits of the type);
  \<open>index\<close> is the array of 64 pixels.
\<close>

record qoi_encoder =
  file_out :: "u8 list"
  run :: int
  prev_px :: qoi_rgba
  index :: "qoi_rgba list"
  lossiness :: int

text \<open>\<^verbatim>\<open>fwrite(data, 1, size, f)\<close>: the bytes are appended to the stream.\<close>

definition qoi_write_bytes :: "u8 list \<Rightarrow> u8 list \<Rightarrow> u8 list" where
  "qoi_write_bytes f data = f @ data"

text \<open>\<^verbatim>\<open>memset\<close> to zero, then the stream, the default alpha and the threshold.\<close>

definition qoi_encoder_init :: "u8 list \<Rightarrow> int \<Rightarrow> qoi_encoder" where
  "qoi_encoder_init f lossy =
     \<lparr> file_out = f, run = 0,
       prev_px = \<lparr> r = 0, g = 0, b = 0, a = 255 \<rparr>,
       index = replicate 64 \<lparr> r = 0, g = 0, b = 0, a = 0 \<rparr>,
       lossiness = lossy \<rparr>"

text \<open>The channels are promoted to \<^verbatim>\<open>int\<close> before the arithmetic, so nothing wraps.\<close>

definition qoi_color_hash :: "qoi_rgba \<Rightarrow> int" where
  "qoi_color_hash px =
     (uint (r px) * 3 + uint (g px) * 5 + uint (b px) * 7 + uint (a px) * 11) mod 64"

definition qoi_px_near :: "qoi_rgba \<Rightarrow> qoi_rgba \<Rightarrow> int \<Rightarrow> bool" where
  "qoi_px_near p q threshold =
     (\<bar>uint (r p) - uint (r q)\<bar> \<le> threshold \<and>
      \<bar>uint (g p) - uint (g q)\<bar> \<le> threshold \<and>
      \<bar>uint (b p) - uint (b q)\<bar> \<le> threshold \<and>
      a p = a q)"

text \<open>
  \<^verbatim>\<open>qoi_write_pixel\<close>, branch by branch. Each opcode byte is computed on \<^verbatim>\<open>int\<close>
  and narrowed to \<^verbatim>\<open>uint8_t\<close> (\<open>word_of_int\<close>); \<^verbatim>\<open>memcmp\<close> on the four-byte struct
  is equality of pixels; the slot number is a hash, hence in \<open>0..63\<close>.
\<close>

definition qoi_write_pixel :: "qoi_encoder \<Rightarrow> qoi_rgba \<Rightarrow> qoi_encoder" where
  "qoi_write_pixel enc px =
     (if qoi_px_near px (prev_px enc) (lossiness enc) then
        (let enc1 = enc\<lparr> run := run enc + 1 \<rparr> in
         if run enc1 = 62 then
           enc1\<lparr> file_out := qoi_write_bytes (file_out enc1) [word_of_int (QOI_OP_RUN OR 61)],
                 run := 0 \<rparr>
         else enc1)
      else
        (let enc1 =
               (if run enc > 0 then
                  enc\<lparr> file_out := qoi_write_bytes (file_out enc)
                                 [word_of_int (QOI_OP_RUN OR (run enc - 1))],
                       run := 0 \<rparr>
                else enc);
             index_pos = qoi_color_hash px;
             enc2 =
               (if index enc1 ! nat index_pos = px then
                  enc1\<lparr> file_out := qoi_write_bytes (file_out enc1)
                                  [word_of_int (QOI_OP_INDEX OR index_pos)] \<rparr>
                else
                  (let enc3 = enc1\<lparr> index := (index enc1)[nat index_pos := px] \<rparr>;
                       dr = uint (r px) - uint (r (prev_px enc3));
                       dg = uint (g px) - uint (g (prev_px enc3));
                       db = uint (b px) - uint (b (prev_px enc3));
                       da = uint (a px) - uint (a (prev_px enc3))
                   in
                     if da = 0 \<and> dr \<ge> -2 \<and> dr \<le> 1 \<and>
                        dg \<ge> -2 \<and> dg \<le> 1 \<and> db \<ge> -2 \<and> db \<le> 1 then
                       enc3\<lparr> file_out := qoi_write_bytes (file_out enc3)
                         [word_of_int (QOI_OP_DIFF OR push_bit 4 (dr + 2)
                                        OR push_bit 2 (dg + 2) OR (db + 2))] \<rparr>
                     else if da = 0 \<and> dg \<ge> -32 \<and> dg \<le> 31 \<and>
                        (dr - dg) \<ge> -8 \<and> (dr - dg) \<le> 7 \<and>
                        (db - dg) \<ge> -8 \<and> (db - dg) \<le> 7 then
                       enc3\<lparr> file_out := qoi_write_bytes
                         (qoi_write_bytes (file_out enc3) [word_of_int (QOI_OP_LUMA OR (dg + 32))])
                         [word_of_int (push_bit 4 (dr - dg + 8) OR (db - dg + 8))] \<rparr>
                     else if a px = a (prev_px enc3) then
                       enc3\<lparr> file_out := qoi_write_bytes
                         (qoi_write_bytes (file_out enc3) [word_of_int QOI_OP_RGB])
                         [r px, g px, b px] \<rparr>
                     else
                       enc3\<lparr> file_out := qoi_write_bytes
                         (qoi_write_bytes (file_out enc3) [word_of_int QOI_OP_RGBA])
                         [r px, g px, b px, a px] \<rparr>))
         in enc2\<lparr> prev_px := px \<rparr>))"

text \<open>The header: magic, width and height byte by byte from the top, channels, 0.\<close>

definition qoi_write_header :: "qoi_encoder \<Rightarrow> int \<Rightarrow> int \<Rightarrow> int \<Rightarrow> qoi_encoder" where
  "qoi_write_header enc width height channels =
     enc\<lparr> file_out := qoi_write_bytes (file_out enc)
       [0x71, 0x6f, 0x69, 0x66,
        word_of_int (drop_bit 24 width), word_of_int (drop_bit 16 width),
        word_of_int (drop_bit 8 width), word_of_int width,
        word_of_int (drop_bit 24 height), word_of_int (drop_bit 16 height),
        word_of_int (drop_bit 8 height), word_of_int height,
        word_of_int channels, 0] \<rparr>"

definition qoi_write_footer :: "qoi_encoder \<Rightarrow> qoi_encoder" where
  "qoi_write_footer enc =
     enc\<lparr> file_out := qoi_write_bytes (file_out enc) [0, 0, 0, 0, 0, 0, 0, 1] \<rparr>"

text \<open>
  What \<^verbatim>\<open>stbi_load\<close> hands to \<^verbatim>\<open>convert_to_qoi\<close>: the dimensions, the number of
  channels of the source image (the call asks for no conversion, so 1 to 4) and
  \<open>width * height * channels\<close> bytes.
\<close>

record image =
  width :: int
  height :: int
  channels :: int
  data :: "u8 list"

text \<open>The body of the pixel loop at position \<open>i\<close>: the pixel read from the raster.\<close>

definition pixel_at :: "image \<Rightarrow> int \<Rightarrow> qoi_rgba" where
  "pixel_at img i =
     \<lparr> r = data img ! nat (i * channels img),
       g = data img ! nat (i * channels img + (if channels img > 1 then 1 else 0)),
       b = data img ! nat (i * channels img + (if channels img > 2 then 2 else 0)),
       a = (if channels img = 4 then data img ! nat (i * channels img + 3) else 255) \<rparr>"

text \<open>The pixel loop itself, over a list of pixels.\<close>

fun write_pixels :: "qoi_encoder \<Rightarrow> qoi_rgba list \<Rightarrow> qoi_encoder" where
  "write_pixels enc [] = enc"
| "write_pixels enc (px # pxs) = write_pixels (qoi_write_pixel enc px) pxs"

text \<open>The flush of the last run, after the loop.\<close>

definition flush_final_run :: "qoi_encoder \<Rightarrow> qoi_encoder" where
  "flush_final_run enc =
     (if run enc > 0 then
        enc\<lparr> file_out := qoi_write_bytes (file_out enc) [word_of_int (QOI_OP_RUN OR (run enc - 1))] \<rparr>
      else enc)"

datatype error = Error_loading_image | Error_opening_output_file

text \<open>
  \<^verbatim>\<open>convert_to_qoi\<close>. Its two calls into the outside are parameters: \<open>loaded\<close> is
  the result of \<^verbatim>\<open>stbi_load\<close> (\<open>None\<close> for a null pointer) and \<open>out_ok\<close> says whether
  \<^verbatim>\<open>fopen\<close> gave a stream. The result is the content of the output file.
\<close>

definition convert_to_qoi :: "image option \<Rightarrow> bool \<Rightarrow> int \<Rightarrow> error + u8 list" where
  "convert_to_qoi loaded out_ok lossy =
     (case loaded of
        None \<Rightarrow> Inl Error_loading_image
      | Some img \<Rightarrow>
          if \<not> out_ok then Inl Error_opening_output_file
          else
            (let enc0 = qoi_encoder_init [] lossy;
                 enc1 = qoi_write_header enc0 (width img) (height img) (channels img);
                 enc2 = write_pixels enc1
                          (map (\<lambda>i. pixel_at img (int i)) [0 ..< nat (width img * height img)]);
                 enc3 = flush_final_run enc2;
                 enc4 = qoi_write_footer enc3
             in Inr (file_out enc4)))"

subsection \<open>The opcode stream read back\<close>

text \<open>
  Modelled from the spec: the repository has no decoder, and the properties of the
  opcodes and of decoding need one. \<open>qoi_chunks\<close> splits a byte stream into opcodes by
  the tag table of the output byte format (the literal bytes \<open>0xFE\<close> and \<open>0xFF\<close> first,
  then the two top bits); every field is kept as stored, bias included. A stream
  that ends inside an opcode gives \<open>None\<close>.
\<close>

datatype qoi_chunk =
    CH_INDEX u8
  | CH_DIFF u8 u8 u8
  | CH_LUMA u8 u8 u8
  | CH_RUN u8
  | CH_RGB u8 u8 u8
  | CH_RGBA u8 u8 u8 u8

fun qoi_chunks :: "u8 list \<Rightarrow> qoi_chunk list option" where
  "qoi_chunks [] = Some []"
| "qoi_chunks (b1 # bs) =
     (if b1 = 0xfe then
        (case bs of
           cr # cg # cb # rest \<Rightarrow> map_option ((#) (CH_RGB cr cg cb)) (qoi_chunks rest)
         | _ \<Rightarrow> None)
      else if b1 = 0xff then
        (case bs of
           cr # cg # cb # ca # rest \<Rightarrow> map_option ((#) (CH_RGBA cr cg cb ca)) (qoi_chunks rest)
         | _ \<Rightarrow> None)
      else if b1 AND 0xc0 = 0x00 then
        map_option ((#) (CH_INDEX (b1 AND 0x3f))) (qoi_chunks bs)
      else if b1 AND 0xc0 = 0x40 then
        map_option ((#) (CH_DIFF (drop_bit 4 b1 AND 0x03) (drop_bit 2 b1 AND 0x03) (b1 AND 0x03)))
          (qoi_chunks bs)
      else if b1 AND 0xc0 = 0x80 then
        (case bs of
           b2 # rest \<Rightarrow>
             map_option ((#) (CH_LUMA (b1 AND 0x3f) (drop_bit 4 b2 AND 0x0f) (b2 AND 0x0f)))
               (qoi_chunks rest)
         | [] \<Rightarrow> None)
      else
        map_option ((#) (CH_RUN (b1 AND 0x3f))) (qoi_chunks bs))"

text \<open>
  Modelled from the spec: the pixel an opcode stands for, given the pixel decoded
  before it and the decoder's own 64-slot cache. The deltas are unbiased (2 for DIFF,
  32 and 8 for LUMA) and added to the channels modulo 256; RGB keeps the alpha.
\<close>

fun chunk_pixel :: "qoi_rgba \<Rightarrow> qoi_rgba list \<Rightarrow> qoi_chunk \<Rightarrow> qoi_rgba" where
  "chunk_pixel px idx (CH_INDEX i) = idx ! unat i"
| "chunk_pixel px idx (CH_DIFF vr vg vb) =
     px\<lparr> r := r px + vr - 2, g := g px + vg - 2, b := b px + vb - 2 \<rparr>"
| "chunk_pixel px idx (CH_LUMA vg vrg vbg) =
     px\<lparr> r := r px + (vg - 32) - 8 + vrg, g := g px + (vg - 32),
         b := b px + (vg - 32) - 8 + vbg \<rparr>"
| "chunk_pixel px idx (CH_RUN v) = px"
| "chunk_pixel px idx (CH_RGB cr cg cb) = px\<lparr> r := cr, g := cg, b := cb \<rparr>"
| "chunk_pixel px idx (CH_RGBA cr cg cb ca) = \<lparr> r = cr, g = cg, b = cb, a = ca \<rparr>"

text \<open>
  Modelled from the spec: the number of pixels an opcode stands for. A RUN stores its
  length less one; every other opcode is one pixel.
\<close>

fun chunk_count :: "qoi_chunk \<Rightarrow> nat" where
  "chunk_count (CH_RUN v) = unat v + 1"
| "chunk_count _ = 1"

text \<open>Modelled from the spec: whether an opcode is a RUN.\<close>

fun is_run :: "qoi_chunk \<Rightarrow> bool" where
  "is_run (CH_RUN v) = True"
| "is_run _ = False"

text \<open>
  Modelled from the spec: the reference decoder over the opcodes. It keeps the last
  pixel and a cache of 64 pixels, and after every opcode stores the pixel at the slot
  of its hash.
\<close>

fun decode_chunks :: "qoi_rgba \<Rightarrow> qoi_rgba list \<Rightarrow> qoi_chunk list \<Rightarrow> qoi_rgba list" where
  "decode_chunks px idx [] = []"
| "decode_chunks px idx (c # cs) =
     (let px' = chunk_pixel px idx c;
          idx' = idx[nat (qoi_color_hash px') := px']
      in replicate (chunk_count c) px' @ decode_chunks px' idx' cs)"

text \<open>
  Modelled from the spec: the reference decoder on the bytes of an opcode stream,
  from the initial pixel \<open>(0, 0, 0, 255)\<close> and a cache of zero pixels.
\<close>

definition qoi_decode :: "u8 list \<Rightarrow> qoi_rgba list option" where
  "qoi_decode bs =
     map_option
       (decode_chunks \<lparr> r = 0, g = 0, b = 0, a = 255 \<rparr>
          (replicate 64 \<lparr> r = 0, g = 0, b = 0, a = 0 \<rparr>))
       (qoi_chunks bs)"

text \<open>
  The opcode stream of a pixel sequence at a threshold: what the encoder writes
  between the header and the footer (initialisation, the pixel loop, the last flush).
\<close>

definition encode_stream :: "int \<Rightarrow> qoi_rgba list \<Rightarrow> u8 list" where
  "encode_stream lossy pxs =
     file_out (flush_final_run (write_pixels (qoi_encoder_init [] lossy) pxs))"

subsection \<open>The two halves of \<^verbatim>\<open>qoi_write_pixel\<close>\<close>

text \<open>
  Names for what the second half of \<^verbatim>\<open>qoi_write_pixel\<close> writes: the flush of a pending
  run of \<open>n\<close> pixels, and the opcode of a pixel that starts afresh. The lemma
  \<open>write_pixel_far\<close> below shows that they are what the function does.
\<close>

definition run_flush :: "int \<Rightarrow> u8 list" where
  "run_flush n = (if n > 0 then [word_of_int (QOI_OP_RUN OR (n - 1))] else [])"

definition pixel_op :: "qoi_rgba \<Rightarrow> qoi_rgba list \<Rightarrow> qoi_rgba \<Rightarrow> u8 list" where
  "pixel_op prev idx px =
     (let index_pos = qoi_color_hash px;
          dr = uint (r px) - uint (r prev);
          dg = uint (g px) - uint (g prev);
          db = uint (b px) - uint (b prev);
          da = uint (a px) - uint (a prev)
      in
        if idx ! nat index_pos = px then [word_of_int (QOI_OP_INDEX OR index_pos)]
        else if da = 0 \<and> dr \<ge> -2 \<and> dr \<le> 1 \<and> dg \<ge> -2 \<and> dg \<le> 1 \<and> db \<ge> -2 \<and> db \<le> 1 then
          [word_of_int (QOI_OP_DIFF OR push_bit 4 (dr + 2) OR push_bit 2 (dg + 2) OR (db + 2))]
        else if da = 0 \<and> dg \<ge> -32 \<and> dg \<le> 31 \<and> (dr - dg) \<ge> -8 \<and> (dr - dg) \<le> 7 \<and>
                (db - dg) \<ge> -8 \<and> (db - dg) \<le> 7 then
          [word_of_int (QOI_OP_LUMA OR (dg + 32)),
           word_of_int (push_bit 4 (dr - dg + 8) OR (db - dg + 8))]
        else if a px = a prev then [word_of_int QOI_OP_RGB, r px, g px, b px]
        else [word_of_int QOI_OP_RGBA, r px, g px, b px, a px])"

text \<open>
  The opcode that \<open>pixel_op\<close> writes, as the reader of the stream sees it: the lemma
  \<open>chunks_pixel_op\<close> below shows that its bytes are split into exactly this opcode.
\<close>

definition pixel_chunk :: "qoi_rgba \<Rightarrow> qoi_rgba list \<Rightarrow> qoi_rgba \<Rightarrow> qoi_chunk" where
  "pixel_chunk prev idx px =
     (let index_pos = qoi_color_hash px;
          dr = uint (r px) - uint (r prev);
          dg = uint (g px) - uint (g prev);
          db = uint (b px) - uint (b prev);
          da = uint (a px) - uint (a prev)
      in
        if idx ! nat index_pos = px then CH_INDEX (word_of_int index_pos)
        else if da = 0 \<and> dr \<ge> -2 \<and> dr \<le> 1 \<and> dg \<ge> -2 \<and> dg \<le> 1 \<and> db \<ge> -2 \<and> db \<le> 1 then
          CH_DIFF (word_of_int (dr + 2)) (word_of_int (dg + 2)) (word_of_int (db + 2))
        else if da = 0 \<and> dg \<ge> -32 \<and> dg \<le> 31 \<and> (dr - dg) \<ge> -8 \<and> (dr - dg) \<le> 7 \<and>
                (db - dg) \<ge> -8 \<and> (db - dg) \<le> 7 then
          CH_LUMA (word_of_int (dg + 32)) (word_of_int (dr - dg + 8)) (word_of_int (db - dg + 8))
        else if a px = a prev then CH_RGB (r px) (g px) (b px)
        else CH_RGBA (r px) (g px) (b px) (a px))"

text \<open>
  The bytes that the pixel loop and the last flush append to the stream from a state,
  and the opcodes they are read back as. Both follow \<^verbatim>\<open>qoi_write_pixel\<close> step by
  step; the lemmas \<open>file_out_stream\<close> and \<open>chunks_enc_bytes\<close> below tie them to
  the encoder and to \<open>qoi_chunks\<close>.
\<close>

fun enc_bytes :: "qoi_encoder \<Rightarrow> qoi_rgba list \<Rightarrow> u8 list" where
  "enc_bytes enc [] = run_flush (run enc)"
| "enc_bytes enc (px # pxs) =
     (if qoi_px_near px (prev_px enc) (lossiness enc) then
        (if run enc = 61 then [0xfd] else [])
      else run_flush (run enc) @ pixel_op (prev_px enc) (index enc) px)
     @ enc_bytes (qoi_write_pixel enc px) pxs"

fun enc_chunks :: "qoi_encoder \<Rightarrow> qoi_rgba list \<Rightarrow> qoi_chunk list" where
  "enc_chunks enc [] = (if run enc > 0 then [CH_RUN (word_of_int (run enc - 1))] else [])"
| "enc_chunks enc (px # pxs) =
     (if qoi_px_near px (prev_px enc) (lossiness enc) then
        (if run enc = 61 then [CH_RUN 61] else [])
      else (if run enc > 0 then [CH_RUN (word_of_int (run enc - 1))] else [])
           @ [pixel_chunk (prev_px enc) (index enc) px])
     @ enc_chunks (qoi_write_pixel enc px) pxs"


text \<open>
  What ties the decoder's cache \<open>didx\<close> to the encoder's cache \<open>eidx\<close> on a lossless
  stream. The decoder stores the pixel after every opcode, RUN included, and the encoder
  only on the path that ends in DIFF, LUMA, RGB or RGBA; so a slot may differ, but
  only where the encoder's slot holds a pixel that does not hash to it, which the
  encoder never names by an INDEX opcode. The slot of the previous pixel either holds
  it or holds such a pixel.
\<close>

definition cache_ok :: "qoi_rgba \<Rightarrow> qoi_rgba list \<Rightarrow> qoi_rgba list \<Rightarrow> bool" where
  "cache_ok prev eidx didx \<longleftrightarrow>
     length eidx = 64 \<and> length didx = 64 \<and>
     (\<forall>i < 64. didx ! i = eidx ! i \<or> qoi_color_hash (eidx ! i) \<noteq> int i) \<and>
     (eidx ! nat (qoi_color_hash prev) = prev \<or>
      qoi_color_hash (eidx ! nat (qoi_color_hash prev)) \<noteq> qoi_color_hash prev)"


section \<open>Properties\<close>

subsection \<open>The branches of the encoder\<close>

lemmas op_defs = QOI_OP_INDEX_def QOI_OP_DIFF_def QOI_OP_LUMA_def QOI_OP_RUN_def
  QOI_OP_RGB_def QOI_OP_RGBA_def

lemma run_cap_byte: "(word_of_int (QOI_OP_RUN OR 61) :: u8) = 0xfd"
  by (simp add: QOI_OP_RUN_def)

lemma write_pixel_near:
  "qoi_px_near px (prev_px enc) (lossiness enc) \<Longrightarrow>
   qoi_write_pixel enc px =
     (if run enc = 61 then enc\<lparr> run := 0, file_out := file_out enc @ [0xfd] \<rparr>
      else enc\<lparr> run := run enc + 1 \<rparr>)"
  by (simp add: qoi_write_pixel_def Let_def qoi_write_bytes_def run_cap_byte)

lemma lossiness_write_pixel [simp]: "lossiness (qoi_write_pixel enc px) = lossiness enc"
  by (simp add: qoi_write_pixel_def Let_def)

lemma lossiness_write_pixels [simp]: "lossiness (write_pixels enc pxs) = lossiness enc"
  by (induction pxs arbitrary: enc) simp_all

lemma write_pixels_near:
  "\<forall>p \<in> set pxs. qoi_px_near p (prev_px enc) (lossiness enc) \<Longrightarrow>
   prev_px (write_pixels enc pxs) = prev_px enc \<and> index (write_pixels enc pxs) = index enc"
proof (induction pxs arbitrary: enc)
  case Nil
  show ?case by simp
next
  case (Cons p pxs)
  have n: "qoi_px_near p (prev_px enc) (lossiness enc)" using Cons.prems by simp
  have s: "prev_px (qoi_write_pixel enc p) = prev_px enc"
          "index (qoi_write_pixel enc p) = index enc"
    by (simp_all add: write_pixel_near [OF n])
  have "\<forall>q \<in> set pxs. qoi_px_near q (prev_px (qoi_write_pixel enc p))
          (lossiness (qoi_write_pixel enc p))"
    using Cons.prems by (simp add: s)
  from Cons.IH [OF this] show ?case by (simp add: s)
qed

lemma prev_px_write_pixel_far:
  "\<not> qoi_px_near px (prev_px enc) (lossiness enc) \<Longrightarrow> prev_px (qoi_write_pixel enc px) = px"
  by (simp add: qoi_write_pixel_def Let_def)

lemma write_pixel_far:
  assumes "\<not> qoi_px_near px (prev_px enc) (lossiness enc)"
  shows "qoi_write_pixel enc px =
     enc\<lparr> file_out := file_out enc @ run_flush (run enc) @ pixel_op (prev_px enc) (index enc) px,
          run := (if run enc > 0 then 0 else run enc),
          prev_px := px,
          index := (index enc)[nat (qoi_color_hash px) := px] \<rparr>"
proof (cases "index enc ! nat (qoi_color_hash px) = px")
  case True
  then have "(index enc)[nat (qoi_color_hash px) := px] = index enc"
    by (metis list_update_id)
  with True assms show ?thesis
    by (simp add: qoi_write_pixel_def Let_def qoi_write_bytes_def run_flush_def pixel_op_def)
next
  case False
  with assms show ?thesis
    by (simp add: qoi_write_pixel_def Let_def qoi_write_bytes_def run_flush_def pixel_op_def)
qed


subsection \<open>Runs keep their anchor\<close>

text \<open>
  C2. A pixel that passes the near test against the previous pixel leaves the previous
  pixel, the cache and the threshold as they are: only the run counter moves (and the
  RUN byte \<open>0xFD\<close> goes out when the counter reaches 62). Hence a sequence of pixels
  that are all near the previous pixel leaves it in place, and after a pixel that
  failed the test and the pixels of the run it started, the previous pixel is that
  anchor and not the last pixel of the run.
\<close>

theorem near_pixel_keeps_anchor:
  "(qoi_px_near px (prev_px enc) (lossiness enc) \<longrightarrow>
      prev_px (qoi_write_pixel enc px) = prev_px enc \<and>
      index (qoi_write_pixel enc px) = index enc \<and>
      lossiness (qoi_write_pixel enc px) = lossiness enc \<and>
      run (qoi_write_pixel enc px) = (if run enc + 1 = 62 then 0 else run enc + 1) \<and>
      file_out (qoi_write_pixel enc px) =
        (if run enc + 1 = 62 then file_out enc @ [0xfd] else file_out enc)) \<and>
   ((\<forall>p \<in> set pxs. qoi_px_near p (prev_px enc) (lossiness enc)) \<longrightarrow>
      prev_px (write_pixels enc pxs) = prev_px enc \<and>
      index (write_pixels enc pxs) = index enc \<and>
      lossiness (write_pixels enc pxs) = lossiness enc) \<and>
   (\<not> qoi_px_near anchor (prev_px enc) (lossiness enc) \<and>
    (\<forall>p \<in> set qs. qoi_px_near p anchor (lossiness enc)) \<longrightarrow>
      prev_px (write_pixels (qoi_write_pixel enc anchor) qs) = anchor)"
proof (intro conjI impI)
  assume n: "qoi_px_near px (prev_px enc) (lossiness enc)"
  show "prev_px (qoi_write_pixel enc px) = prev_px enc"
    by (simp add: write_pixel_near [OF n])
  show "index (qoi_write_pixel enc px) = index enc"
    by (simp add: write_pixel_near [OF n])
  show "run (qoi_write_pixel enc px) = (if run enc + 1 = 62 then 0 else run enc + 1)"
    by (simp add: write_pixel_near [OF n])
  show "file_out (qoi_write_pixel enc px) =
        (if run enc + 1 = 62 then file_out enc @ [0xfd] else file_out enc)"
    by (simp add: write_pixel_near [OF n])
next
  show "lossiness (qoi_write_pixel enc px) = lossiness enc" by simp
next
  assume "\<forall>p \<in> set pxs. qoi_px_near p (prev_px enc) (lossiness enc)"
  from write_pixels_near [OF this]
  show "prev_px (write_pixels enc pxs) = prev_px enc"
    and "index (write_pixels enc pxs) = index enc" by simp_all
next
  show "lossiness (write_pixels enc pxs) = lossiness enc" by simp
next
  assume h: "\<not> qoi_px_near anchor (prev_px enc) (lossiness enc) \<and>
    (\<forall>p \<in> set qs. qoi_px_near p anchor (lossiness enc))"
  then have p: "prev_px (qoi_write_pixel enc anchor) = anchor"
    by (simp add: prev_px_write_pixel_far)
  have "\<forall>q \<in> set qs. qoi_px_near q (prev_px (qoi_write_pixel enc anchor))
          (lossiness (qoi_write_pixel enc anchor))"
    using h by (simp add: p)
  from write_pixels_near [OF this]
  show "prev_px (write_pixels (qoi_write_pixel enc anchor) qs) = anchor"
    by (simp add: p)
qed


theorem near_pixel_keeps_anchor_witness:
  "qoi_px_near \<lparr> r = 1, g = 1, b = 1, a = 255 \<rparr> (prev_px (qoi_encoder_init [] 2))
     (lossiness (qoi_encoder_init [] 2)) \<and>
   prev_px (qoi_write_pixel (qoi_encoder_init [] 2) \<lparr> r = 1, g = 1, b = 1, a = 255 \<rparr>) =
     \<lparr> r = 0, g = 0, b = 0, a = 255 \<rparr> \<and>
   run (qoi_write_pixel (qoi_encoder_init [] 2) \<lparr> r = 1, g = 1, b = 1, a = 255 \<rparr>) = 1 \<and>
   prev_px (write_pixels (qoi_encoder_init [] 2)
      [\<lparr> r = 1, g = 0, b = 2, a = 255 \<rparr>, \<lparr> r = 2, g = 2, b = 2, a = 255 \<rparr>]) =
     \<lparr> r = 0, g = 0, b = 0, a = 255 \<rparr> \<and>
   \<not> qoi_px_near \<lparr> r = 10, g = 10, b = 10, a = 255 \<rparr> (prev_px (qoi_encoder_init [] 2))
     (lossiness (qoi_encoder_init [] 2)) \<and>
   prev_px (write_pixels
      (qoi_write_pixel (qoi_encoder_init [] 2) \<lparr> r = 10, g = 10, b = 10, a = 255 \<rparr>)
      [\<lparr> r = 12, g = 9, b = 10, a = 255 \<rparr>, \<lparr> r = 8, g = 11, b = 12, a = 255 \<rparr>]) =
     \<lparr> r = 10, g = 10, b = 10, a = 255 \<rparr>"
  using near_pixel_keeps_anchor
    [of "\<lparr> r = 1, g = 1, b = 1, a = 255 \<rparr>" "qoi_encoder_init [] 2"
        "[\<lparr> r = 1, g = 0, b = 2, a = 255 \<rparr>, \<lparr> r = 2, g = 2, b = 2, a = 255 \<rparr>]"
        "\<lparr> r = 10, g = 10, b = 10, a = 255 \<rparr>"
        "[\<lparr> r = 12, g = 9, b = 10, a = 255 \<rparr>, \<lparr> r = 8, g = 11, b = 12, a = 255 \<rparr>]"]
  by (simp add: qoi_px_near_def qoi_encoder_init_def)


subsection \<open>The bytes of each opcode, read back\<close>

lemma bit_pos8:
  "k < 8 \<Longrightarrow> k = 0 \<or> k = 1 \<or> k = 2 \<or> k = 3 \<or> k = 4 \<or> k = 5 \<or> k = 6 \<or> k = (7::nat)"
  by arith

lemma u8_eqI:
  fixes v w :: u8
  assumes "bit v 0 = bit w 0" "bit v 1 = bit w 1" "bit v 2 = bit w 2" "bit v 3 = bit w 3"
    "bit v 4 = bit w 4" "bit v 5 = bit w 5" "bit v 6 = bit w 6" "bit v 7 = bit w 7"
  shows "v = w"
proof (rule bit_word_eqI)
  fix k
  assume "k < LENGTH(8)"
  then have "k < 8" by simp
  from bit_pos8 [OF this] assms show "bit v k = bit w k" by auto
qed

lemma uint_small: "0 \<le> n \<Longrightarrow> n < 256 \<Longrightarrow> uint (word_of_int n :: u8) = n"
  by (simp add: uint_word_of_int)

lemma tag_not_rgb:
  "(w :: u8) AND 0xc0 \<noteq> 0xc0 \<Longrightarrow> w \<noteq> 0xfe \<and> w \<noteq> 0xff"
  by auto

lemma tb6_byte:
  "(word_of_int (QOI_OP_RUN OR take_bit 6 m) :: u8) AND 0xc0 = 0xc0"
  "(word_of_int (QOI_OP_RUN OR take_bit 6 m) :: u8) AND 0x3f = word_of_int (take_bit 6 m)"
  "(word_of_int (QOI_OP_INDEX OR take_bit 6 m) :: u8) AND 0xc0 = 0x00"
  "(word_of_int (QOI_OP_INDEX OR take_bit 6 m) :: u8) AND 0x3f = word_of_int (take_bit 6 m)"
  "(word_of_int (QOI_OP_LUMA OR take_bit 6 m) :: u8) AND 0xc0 = 0x80"
  "(word_of_int (QOI_OP_LUMA OR take_bit 6 m) :: u8) AND 0x3f = word_of_int (take_bit 6 m)"
  unfolding QOI_OP_RUN_def QOI_OP_INDEX_def QOI_OP_LUMA_def
  by (rule u8_eqI; simp add: bit_simps)+

lemma tb2_byte:
  "(word_of_int (QOI_OP_DIFF OR push_bit 4 (take_bit 2 x) OR push_bit 2 (take_bit 2 y)
       OR take_bit 2 z) :: u8) AND 0xc0 = 0x40"
  "drop_bit 4 (word_of_int (QOI_OP_DIFF OR push_bit 4 (take_bit 2 x) OR push_bit 2 (take_bit 2 y)
       OR take_bit 2 z) :: u8) AND 0x03 = word_of_int (take_bit 2 x)"
  "drop_bit 2 (word_of_int (QOI_OP_DIFF OR push_bit 4 (take_bit 2 x) OR push_bit 2 (take_bit 2 y)
       OR take_bit 2 z) :: u8) AND 0x03 = word_of_int (take_bit 2 y)"
  "(word_of_int (QOI_OP_DIFF OR push_bit 4 (take_bit 2 x) OR push_bit 2 (take_bit 2 y)
       OR take_bit 2 z) :: u8) AND 0x03 = word_of_int (take_bit 2 z)"
  unfolding QOI_OP_DIFF_def
  by (rule u8_eqI; simp add: bit_simps)+

lemma tb4_byte:
  "drop_bit 4 (word_of_int (push_bit 4 (take_bit 4 x) OR take_bit 4 y) :: u8) AND 0x0f
     = word_of_int (take_bit 4 x)"
  "(word_of_int (push_bit 4 (take_bit 4 x) OR take_bit 4 y) :: u8) AND 0x0f
     = word_of_int (take_bit 4 y)"
  by (rule u8_eqI; simp add: bit_simps)+


lemma hash_range: "0 \<le> qoi_color_hash px" "qoi_color_hash px < 64"
  by (simp_all add: qoi_color_hash_def)

lemma chunks_run_byte:
  assumes "0 \<le> n" "n \<le> 61"
  shows "qoi_chunks (word_of_int (QOI_OP_RUN OR n) # bs) =
           map_option ((#) (CH_RUN (word_of_int n))) (qoi_chunks bs)"
proof -
  have t: "take_bit 6 n = n" using assms by (simp add: take_bit_int_eq_self)
  have 1: "(word_of_int (QOI_OP_RUN OR n) :: u8) AND 0xc0 = 0xc0"
    and 2: "(word_of_int (QOI_OP_RUN OR n) :: u8) AND 0x3f = word_of_int n"
    using tb6_byte(1,2) [of n] by (simp_all add: t)
  have "uint (word_of_int n :: u8) = n" using assms by (simp add: uint_small)
  then have "(word_of_int n :: u8) \<noteq> 62 \<and> (word_of_int n :: u8) \<noteq> 63"
    using assms by auto
  with 2 have 3: "(word_of_int (QOI_OP_RUN OR n) :: u8) \<noteq> 0xfe"
    and 4: "(word_of_int (QOI_OP_RUN OR n) :: u8) \<noteq> 0xff"
    by auto
  show ?thesis by (simp add: 1 2 3 4)
qed

lemma chunks_run_flush:
  assumes "n \<le> 62"
  shows "qoi_chunks (run_flush n @ bs) =
           (if n > 0 then map_option ((#) (CH_RUN (word_of_int (n - 1)))) (qoi_chunks bs)
            else qoi_chunks bs)"
proof (cases "n > 0")
  case True
  have "qoi_chunks (word_of_int (QOI_OP_RUN OR (n - 1)) # bs) =
          map_option ((#) (CH_RUN (word_of_int (n - 1)))) (qoi_chunks bs)"
    using assms True by (intro chunks_run_byte) simp_all
  with True show ?thesis by (simp add: run_flush_def del: qoi_chunks.simps)
next
  case False
  then show ?thesis by (simp add: run_flush_def)
qed

lemma chunks_index_byte:
  assumes "0 \<le> n" "n < 64"
  shows "qoi_chunks (word_of_int (QOI_OP_INDEX OR n) # bs) =
           map_option ((#) (CH_INDEX (word_of_int n))) (qoi_chunks bs)"
proof -
  have t: "take_bit 6 n = n" using assms by (simp add: take_bit_int_eq_self)
  have 1: "(word_of_int (QOI_OP_INDEX OR n) :: u8) AND 0xc0 = 0x00"
    and 2: "(word_of_int (QOI_OP_INDEX OR n) :: u8) AND 0x3f = word_of_int n"
    using tb6_byte(3,4) [of n] by (simp_all add: t)
  from 1 have 3: "(word_of_int (QOI_OP_INDEX OR n) :: u8) \<noteq> 0xfe"
    and 4: "(word_of_int (QOI_OP_INDEX OR n) :: u8) \<noteq> 0xff"
    by auto
  show ?thesis by (simp add: 1 2 3 4)
qed

lemma chunks_diff_byte:
  assumes "0 \<le> x" "x < 4" "0 \<le> y" "y < 4" "0 \<le> z" "z < 4"
  shows "qoi_chunks (word_of_int (QOI_OP_DIFF OR push_bit 4 x OR push_bit 2 y OR z) # bs) =
           map_option ((#) (CH_DIFF (word_of_int x) (word_of_int y) (word_of_int z)))
             (qoi_chunks bs)"
proof -
  let ?w = "word_of_int (QOI_OP_DIFF OR push_bit 4 x OR push_bit 2 y OR z) :: u8"
  have t: "take_bit 2 x = x" "take_bit 2 y = y" "take_bit 2 z = z"
    using assms by (simp_all add: take_bit_int_eq_self)
  have 1: "?w AND 0xc0 = 0x40" and 2: "drop_bit 4 ?w AND 0x03 = word_of_int x"
    and 3: "drop_bit 2 ?w AND 0x03 = word_of_int y" and 4: "?w AND 0x03 = word_of_int z"
    using tb2_byte [of x y z] by (simp_all add: t)
  from 1 have 5: "?w \<noteq> 0xfe" and 6: "?w \<noteq> 0xff" by auto
  show ?thesis by (simp add: 1 2 3 4 5 6)
qed

lemma chunks_luma_bytes:
  assumes "0 \<le> v" "v < 64" "0 \<le> x" "x < 16" "0 \<le> y" "y < 16"
  shows "qoi_chunks (word_of_int (QOI_OP_LUMA OR v) # word_of_int (push_bit 4 x OR y) # bs) =
           map_option ((#) (CH_LUMA (word_of_int v) (word_of_int x) (word_of_int y)))
             (qoi_chunks bs)"
proof -
  let ?w = "word_of_int (QOI_OP_LUMA OR v) :: u8"
  let ?w2 = "word_of_int (push_bit 4 x OR y) :: u8"
  have t: "take_bit 6 v = v" "take_bit 4 x = x" "take_bit 4 y = y"
    using assms by (simp_all add: take_bit_int_eq_self)
  have 1: "?w AND 0xc0 = 0x80" and 2: "?w AND 0x3f = word_of_int v"
    using tb6_byte(5,6) [of v] by (simp_all add: t)
  have 3: "drop_bit 4 ?w2 AND 0x0f = word_of_int x" and 4: "?w2 AND 0x0f = word_of_int y"
    using tb4_byte [of x y] by (simp_all add: t)
  from 1 have 5: "?w \<noteq> 0xfe" and 6: "?w \<noteq> 0xff" by auto
  show ?thesis by (simp add: 1 2 3 4 5 6)
qed

lemma chunks_pixel_op:
  "qoi_chunks (pixel_op prev idx px @ bs) =
     map_option ((#) (pixel_chunk prev idx px)) (qoi_chunks bs)"
proof -
  define dr where "dr = uint (r px) - uint (r prev)"
  define dg where "dg = uint (g px) - uint (g prev)"
  define db where "db = uint (b px) - uint (b prev)"
  define da where "da = uint (a px) - uint (a prev)"
  define h where "h = qoi_color_hash px"
  define cd where
    "cd \<longleftrightarrow> da = 0 \<and> dr \<ge> -2 \<and> dr \<le> 1 \<and> dg \<ge> -2 \<and> dg \<le> 1 \<and> db \<ge> -2 \<and> db \<le> 1"
  define cl where
    "cl \<longleftrightarrow> da = 0 \<and> dg \<ge> -32 \<and> dg \<le> 31 \<and> (dr - dg) \<ge> -8 \<and> (dr - dg) \<le> 7 \<and>
                (db - dg) \<ge> -8 \<and> (db - dg) \<le> 7"
  have po: "pixel_op prev idx px =
     (if idx ! nat h = px then [word_of_int (QOI_OP_INDEX OR h)]
      else if cd then
        [word_of_int (QOI_OP_DIFF OR push_bit 4 (dr + 2) OR push_bit 2 (dg + 2) OR (db + 2))]
      else if cl then
        [word_of_int (QOI_OP_LUMA OR (dg + 32)),
         word_of_int (push_bit 4 (dr - dg + 8) OR (db - dg + 8))]
      else if a px = a prev then [word_of_int QOI_OP_RGB, r px, g px, b px]
      else [word_of_int QOI_OP_RGBA, r px, g px, b px, a px])"
    by (simp only: pixel_op_def Let_def dr_def dg_def db_def da_def h_def cd_def cl_def)
  have pc: "pixel_chunk prev idx px =
     (if idx ! nat h = px then CH_INDEX (word_of_int h)
      else if cd then CH_DIFF (word_of_int (dr + 2)) (word_of_int (dg + 2)) (word_of_int (db + 2))
      else if cl then
        CH_LUMA (word_of_int (dg + 32)) (word_of_int (dr - dg + 8)) (word_of_int (db - dg + 8))
      else if a px = a prev then CH_RGB (r px) (g px) (b px)
      else CH_RGBA (r px) (g px) (b px) (a px))"
    by (simp only: pixel_chunk_def Let_def dr_def dg_def db_def da_def h_def cd_def cl_def)
  have i: "qoi_chunks (word_of_int (QOI_OP_INDEX OR h) # bs) =
      map_option ((#) (CH_INDEX (word_of_int h))) (qoi_chunks bs)"
    unfolding h_def by (intro chunks_index_byte hash_range)
  have d: "qoi_chunks (word_of_int (QOI_OP_DIFF OR push_bit 4 (dr + 2) OR push_bit 2 (dg + 2)
             OR (db + 2)) # bs) =
           map_option ((#) (CH_DIFF (word_of_int (dr + 2)) (word_of_int (dg + 2))
             (word_of_int (db + 2)))) (qoi_chunks bs)" if cd
    using that unfolding cd_def by (intro chunks_diff_byte) simp_all
  have l: "qoi_chunks (word_of_int (QOI_OP_LUMA OR (dg + 32)) #
             word_of_int (push_bit 4 (dr - dg + 8) OR (db - dg + 8)) # bs) =
           map_option ((#) (CH_LUMA (word_of_int (dg + 32)) (word_of_int (dr - dg + 8))
             (word_of_int (db - dg + 8)))) (qoi_chunks bs)" if cl
    using that unfolding cl_def by (intro chunks_luma_bytes) simp_all
  have rgb: "qoi_chunks (word_of_int QOI_OP_RGB # r px # g px # b px # bs) =
      map_option ((#) (CH_RGB (r px) (g px) (b px))) (qoi_chunks bs)"
    by (simp add: QOI_OP_RGB_def)
  have rgba: "qoi_chunks (word_of_int QOI_OP_RGBA # r px # g px # b px # a px # bs) =
      map_option ((#) (CH_RGBA (r px) (g px) (b px) (a px))) (qoi_chunks bs)"
    by (simp add: QOI_OP_RGBA_def)
  show ?thesis
    using i d l rgb rgba
    by (cases "idx ! nat h = px"; cases cd; cases cl; cases "a px = a prev";
        simp add: po pc del: qoi_chunks.simps)
qed

subsection \<open>The stream of a pixel sequence\<close>

lemma file_out_write_pixel:
  "file_out (qoi_write_pixel enc px) = file_out enc @
     (if qoi_px_near px (prev_px enc) (lossiness enc) then
        (if run enc = 61 then [0xfd] else [])
      else run_flush (run enc) @ pixel_op (prev_px enc) (index enc) px)"
  by (simp add: write_pixel_near write_pixel_far)

lemma file_out_stream:
  "file_out (flush_final_run (write_pixels enc pxs)) = file_out enc @ enc_bytes enc pxs"
proof (induction pxs arbitrary: enc)
  case Nil
  show ?case by (simp add: flush_final_run_def run_flush_def qoi_write_bytes_def)
next
  case (Cons px pxs)
  show ?case by (simp only: write_pixels.simps enc_bytes.simps Cons.IH file_out_write_pixel append_assoc)
qed

lemma encode_stream_bytes: "encode_stream t pxs = enc_bytes (qoi_encoder_init [] t) pxs"
  by (simp add: encode_stream_def file_out_stream) (simp add: qoi_encoder_init_def)

lemma run_write_pixel:
  "run (qoi_write_pixel enc px) =
     (if qoi_px_near px (prev_px enc) (lossiness enc) then
        (if run enc = 61 then 0 else run enc + 1)
      else (if run enc > 0 then 0 else run enc))"
  by (simp add: write_pixel_near write_pixel_far)

lemma run_range_write_pixel:
  "0 \<le> run enc \<Longrightarrow> run enc \<le> 61 \<Longrightarrow>
   0 \<le> run (qoi_write_pixel enc px) \<and> run (qoi_write_pixel enc px) \<le> 61"
  by (simp add: run_write_pixel)

lemma run_range_write_pixels:
  "0 \<le> run enc \<Longrightarrow> run enc \<le> 61 \<Longrightarrow>
   0 \<le> run (write_pixels enc pxs) \<and> run (write_pixels enc pxs) \<le> 61"
proof (induction pxs arbitrary: enc)
  case Nil
  then show ?case by simp
next
  case (Cons px pxs)
  from run_range_write_pixel [OF Cons.prems, of px] Cons.IH [of "qoi_write_pixel enc px"]
  show ?case by simp
qed

lemma chunks_cap_byte:
  "qoi_chunks (0xfd # bs) = map_option ((#) (CH_RUN 61)) (qoi_chunks bs)"
  by simp

lemma chunks_enc_bytes:
  "0 \<le> run enc \<Longrightarrow> run enc \<le> 61 \<Longrightarrow>
   qoi_chunks (enc_bytes enc pxs @ bs) = map_option ((@) (enc_chunks enc pxs)) (qoi_chunks bs)"
proof (induction pxs arbitrary: enc)
  case Nil
  then show ?case
    by (simp add: chunks_run_flush option.map_ident del: qoi_chunks.simps)
next
  case (Cons px pxs)
  note r = run_range_write_pixel [OF Cons.prems, of px]
  note ih = Cons.IH [OF r [THEN conjunct1] r [THEN conjunct2]]
  show ?case
    using Cons.prems
    by (simp add: ih chunks_run_flush chunks_pixel_op chunks_cap_byte option.map_comp comp_def
          del: qoi_chunks.simps)
qed

lemma chunks_encode_stream:
  "qoi_chunks (encode_stream t pxs) = Some (enc_chunks (qoi_encoder_init [] t) pxs)"
  using chunks_enc_bytes [of "qoi_encoder_init [] t" pxs "[]"]
  by (simp add: encode_stream_bytes) (simp add: qoi_encoder_init_def)

lemma unat_run_byte:
  assumes "0 < n" "n \<le> 62"
  shows "unat (word_of_int n - 1 :: u8) = nat n - 1"
proof -
  have "uint (word_of_int (n - 1) :: u8) = n - 1"
    using assms by (intro uint_small) simp_all
  then have "unat (word_of_int (n - 1) :: u8) = nat (n - 1)"
    by (simp only: unat_eq_nat_uint)
  then show ?thesis using assms by (simp add: nat_diff_distrib)
qed

text \<open>Pixels still pending in the counter plus pixels of the sequence are what the opcodes of the stream stand for.\<close>

lemma count_enc_chunks:
  "0 \<le> run enc \<Longrightarrow> run enc \<le> 61 \<Longrightarrow>
   sum_list (map chunk_count (enc_chunks enc pxs)) = nat (run enc) + length pxs"
proof (induction pxs arbitrary: enc)
  case Nil
  then show ?case by (auto simp add: unat_run_byte)
next
  case (Cons px pxs)
  note r = run_range_write_pixel [OF Cons.prems, of px]
  note ih = Cons.IH [OF r [THEN conjunct1] r [THEN conjunct2]]
  have pc: "chunk_count (pixel_chunk (prev_px enc) (index enc) px) = 1"
    by (simp add: pixel_chunk_def Let_def)
  show ?case
    using Cons.prems
    by (auto simp add: ih run_write_pixel unat_run_byte pc nat_add_distrib)
qed

lemma run_len_enc_chunks:
  "0 \<le> run enc \<Longrightarrow> run enc \<le> 61 \<Longrightarrow> c \<in> set (enc_chunks enc pxs) \<Longrightarrow> chunk_count c \<le> 62"
proof (induction pxs arbitrary: enc)
  case Nil
  then show ?case by (auto simp add: unat_run_byte split: if_splits)
next
  case (Cons px pxs)
  note r = run_range_write_pixel [OF Cons.prems(1,2), of px]
  note ih = Cons.IH [OF r [THEN conjunct1] r [THEN conjunct2]]
  have pc: "chunk_count (pixel_chunk (prev_px enc) (index enc) px) = 1"
    by (simp add: pixel_chunk_def Let_def)
  from Cons.prems ih show ?case
    by (auto simp add: unat_run_byte pc split: if_splits)
qed

lemma prev_px_write_pixel:
  "prev_px (qoi_write_pixel enc px) =
     (if qoi_px_near px (prev_px enc) (lossiness enc) then prev_px enc else px)"
  by (simp add: write_pixel_near write_pixel_far)

lemma index_write_pixel:
  "index (qoi_write_pixel enc px) =
     (if qoi_px_near px (prev_px enc) (lossiness enc) then index enc
      else (index enc)[nat (qoi_color_hash px) := px])"
  by (simp add: write_pixel_near write_pixel_far)

lemmas write_pixel_fields =
  file_out_write_pixel run_write_pixel prev_px_write_pixel index_write_pixel

subsection \<open>The run counter and the RUN opcodes\<close>

text \<open>
  C3. The run counter is 0 after initialisation, and a call of \<^verbatim>\<open>qoi_write_pixel\<close>
  keeps it between 0 and 61, so it is in that range after any sequence of pixels.
  Each of the three places that write a RUN opcode stores the count less one: the
  cap, reached by the 62nd near pixel, writes \<open>0xFD\<close>, read back as the stored value 61
  and a run of 62; the flush before a pixel that fails the near test and the flush
  after the loop write the byte read back as the stored value \<open>run - 1\<close> and a run of
  \<open>run\<close> pixels. A near pixel below the cap writes nothing, and there is no flush when
  the counter is 0. For every threshold and pixel sequence the stream splits into
  opcodes, none of which stands for more than 62 pixels, and which together stand
  for as many pixels as were encoded.
\<close>

theorem run_counter_range_and_bias:
  "run (qoi_encoder_init f t) = 0 \<and>
   (0 \<le> run enc \<and> run enc \<le> 61 \<longrightarrow>
      0 \<le> run (qoi_write_pixel enc px) \<and> run (qoi_write_pixel enc px) \<le> 61) \<and>
   0 \<le> run (write_pixels (qoi_encoder_init f t) pxs) \<and>
   run (write_pixels (qoi_encoder_init f t) pxs) \<le> 61 \<and>
   (qoi_px_near px (prev_px enc) (lossiness enc) \<and> run enc = 61 \<longrightarrow>
      file_out (qoi_write_pixel enc px) = file_out enc @ [0xfd] \<and>
      run (qoi_write_pixel enc px) = 0 \<and>
      qoi_chunks [0xfd] = Some [CH_RUN 61] \<and> chunk_count (CH_RUN 61) = 62) \<and>
   (qoi_px_near px (prev_px enc) (lossiness enc) \<and> run enc \<noteq> 61 \<longrightarrow>
      file_out (qoi_write_pixel enc px) = file_out enc \<and>
      run (qoi_write_pixel enc px) = run enc + 1) \<and>
   (\<not> qoi_px_near px (prev_px enc) (lossiness enc) \<and> 0 < run enc \<and> run enc \<le> 61 \<longrightarrow>
      (\<exists>rest. file_out (qoi_write_pixel enc px) =
         file_out enc @ [word_of_int (QOI_OP_RUN OR (run enc - 1))] @ rest) \<and>
      run (qoi_write_pixel enc px) = 0 \<and>
      qoi_chunks [word_of_int (QOI_OP_RUN OR (run enc - 1))] =
        Some [CH_RUN (word_of_int (run enc - 1))] \<and>
      chunk_count (CH_RUN (word_of_int (run enc - 1))) = nat (run enc)) \<and>
   (0 < run enc \<and> run enc \<le> 61 \<longrightarrow>
      file_out (flush_final_run enc) =
        file_out enc @ [word_of_int (QOI_OP_RUN OR (run enc - 1))]) \<and>
   (run enc = 0 \<longrightarrow> file_out (flush_final_run enc) = file_out enc) \<and>
   (\<exists>cs. qoi_chunks (encode_stream t pxs) = Some cs \<and>
      (\<forall>c \<in> set cs. chunk_count c \<le> 62) \<and>
      sum_list (map chunk_count cs) = length pxs)"
proof -
  have i: "run (qoi_encoder_init f t) = 0" by (simp add: qoi_encoder_init_def)
  have i0: "run (qoi_encoder_init [] t) = 0" by (simp add: qoi_encoder_init_def)
  have s: "0 \<le> run enc \<and> run enc \<le> 61 \<longrightarrow>
      0 \<le> run (qoi_write_pixel enc px) \<and> run (qoi_write_pixel enc px) \<le> 61"
    using run_range_write_pixel by blast
  have w: "0 \<le> run (write_pixels (qoi_encoder_init f t) pxs) \<and>
      run (write_pixels (qoi_encoder_init f t) pxs) \<le> 61"
    by (rule run_range_write_pixels) (simp_all add: i)
  have cap: "qoi_px_near px (prev_px enc) (lossiness enc) \<and> run enc = 61 \<longrightarrow>
      file_out (qoi_write_pixel enc px) = file_out enc @ [0xfd] \<and>
      run (qoi_write_pixel enc px) = 0 \<and>
      qoi_chunks [0xfd] = Some [CH_RUN 61] \<and> chunk_count (CH_RUN 61) = 62"
    by (simp add: file_out_write_pixel run_write_pixel)
  have nocap: "qoi_px_near px (prev_px enc) (lossiness enc) \<and> run enc \<noteq> 61 \<longrightarrow>
      file_out (qoi_write_pixel enc px) = file_out enc \<and>
      run (qoi_write_pixel enc px) = run enc + 1"
    by (simp add: file_out_write_pixel run_write_pixel)
  have rb: "qoi_chunks [word_of_int (QOI_OP_RUN OR (run enc - 1))] =
        Some [CH_RUN (word_of_int (run enc - 1))] \<and>
      chunk_count (CH_RUN (word_of_int (run enc - 1))) = nat (run enc)"
    if "0 < run enc" "run enc \<le> 61"
  proof -
    have "qoi_chunks (word_of_int (QOI_OP_RUN OR (run enc - 1)) # []) =
        map_option ((#) (CH_RUN (word_of_int (run enc - 1)))) (qoi_chunks [])"
      using that by (intro chunks_run_byte) simp_all
    moreover have "unat (word_of_int (run enc) - 1 :: u8) = nat (run enc) - 1"
      using that by (intro unat_run_byte) simp_all
    ultimately show ?thesis using that by simp
  qed
  have mis: "\<not> qoi_px_near px (prev_px enc) (lossiness enc) \<and> 0 < run enc \<and> run enc \<le> 61 \<longrightarrow>
      (\<exists>rest. file_out (qoi_write_pixel enc px) =
         file_out enc @ [word_of_int (QOI_OP_RUN OR (run enc - 1))] @ rest) \<and>
      run (qoi_write_pixel enc px) = 0 \<and>
      qoi_chunks [word_of_int (QOI_OP_RUN OR (run enc - 1))] =
        Some [CH_RUN (word_of_int (run enc - 1))] \<and>
      chunk_count (CH_RUN (word_of_int (run enc - 1))) = nat (run enc)"
    using rb by (simp add: file_out_write_pixel run_write_pixel run_flush_def)
  have fin: "0 < run enc \<and> run enc \<le> 61 \<longrightarrow>
      file_out (flush_final_run enc) =
        file_out enc @ [word_of_int (QOI_OP_RUN OR (run enc - 1))]"
    by (simp add: flush_final_run_def qoi_write_bytes_def)
  have fin0: "run enc = 0 \<longrightarrow> file_out (flush_final_run enc) = file_out enc"
    by (simp add: flush_final_run_def)
  have g: "\<exists>cs. qoi_chunks (encode_stream t pxs) = Some cs \<and>
      (\<forall>c \<in> set cs. chunk_count c \<le> 62) \<and>
      sum_list (map chunk_count cs) = length pxs"
  proof (intro exI conjI ballI)
    show "qoi_chunks (encode_stream t pxs) = Some (enc_chunks (qoi_encoder_init [] t) pxs)"
      by (rule chunks_encode_stream)
    show "chunk_count c \<le> 62" if "c \<in> set (enc_chunks (qoi_encoder_init [] t) pxs)" for c
      using that by (intro run_len_enc_chunks [of "qoi_encoder_init [] t" c pxs])
        (simp_all add: i0)
    show "sum_list (map chunk_count (enc_chunks (qoi_encoder_init [] t) pxs)) = length pxs"
      using count_enc_chunks [of "qoi_encoder_init [] t" pxs] by (simp add: i0)
  qed
  from i s w cap nocap mis fin fin0 g show ?thesis by blast
qed

theorem run_counter_range_and_bias_witness:
  "file_out (qoi_write_pixel ((qoi_encoder_init [] 0)\<lparr> run := 61 \<rparr>)
      \<lparr> r = 0, g = 0, b = 0, a = 255 \<rparr>) = [0xfd] \<and>
   run (qoi_write_pixel ((qoi_encoder_init [] 0)\<lparr> run := 61 \<rparr>)
      \<lparr> r = 0, g = 0, b = 0, a = 255 \<rparr>) = 0 \<and>
   file_out (flush_final_run ((qoi_encoder_init [] 0)\<lparr> run := 61 \<rparr>)) = [0xfc] \<and>
   file_out (qoi_write_pixel ((qoi_encoder_init [] 0)\<lparr> run := 5 \<rparr>)
      \<lparr> r = 0, g = 0, b = 0, a = 255 \<rparr>) = [] \<and>
   run (qoi_write_pixel ((qoi_encoder_init [] 0)\<lparr> run := 5 \<rparr>)
      \<lparr> r = 0, g = 0, b = 0, a = 255 \<rparr>) = 6 \<and>
   run (qoi_write_pixel ((qoi_encoder_init [] 0)\<lparr> run := 5 \<rparr>)
      \<lparr> r = 9, g = 9, b = 9, a = 255 \<rparr>) = 0 \<and>
   qoi_chunks [0xc4] = Some [CH_RUN 4] \<and> chunk_count (CH_RUN 4) = 5 \<and>
   file_out (flush_final_run (qoi_encoder_init [] 0)) = [] \<and>
   (\<exists>cs. qoi_chunks (encode_stream 0
       [\<lparr> r = 0, g = 0, b = 0, a = 255 \<rparr>, \<lparr> r = 0, g = 0, b = 0, a = 255 \<rparr>]) = Some cs \<and>
     cs \<noteq> [] \<and> sum_list (map chunk_count cs) = 2)"
proof -
  have c: "encode_stream 0
       [\<lparr> r = 0, g = 0, b = 0, a = 255 \<rparr>, \<lparr> r = 0, g = 0, b = 0, a = 255 \<rparr>] = [0xc1]"
    by (simp add: encode_stream_bytes qoi_px_near_def qoi_encoder_init_def write_pixel_fields
          run_flush_def QOI_OP_RUN_def)
  show ?thesis
    using
      run_counter_range_and_bias [of "[]" 0 "(qoi_encoder_init [] 0)\<lparr> run := 61 \<rparr>"
        "\<lparr> r = 0, g = 0, b = 0, a = 255 \<rparr>"
        "[\<lparr> r = 0, g = 0, b = 0, a = 255 \<rparr>, \<lparr> r = 0, g = 0, b = 0, a = 255 \<rparr>]"]
      run_counter_range_and_bias [of "[]" 0 "(qoi_encoder_init [] 0)\<lparr> run := 5 \<rparr>"
        "\<lparr> r = 0, g = 0, b = 0, a = 255 \<rparr>" "[]"]
      run_counter_range_and_bias [of "[]" 0 "(qoi_encoder_init [] 0)\<lparr> run := 5 \<rparr>"
        "\<lparr> r = 9, g = 9, b = 9, a = 255 \<rparr>" "[]"]
      run_counter_range_and_bias [of "[]" 0 "qoi_encoder_init [] 0"
        "\<lparr> r = 9, g = 9, b = 9, a = 255 \<rparr>" "[]"]
    by (simp add: qoi_px_near_def qoi_encoder_init_def QOI_OP_RUN_def c)
qed

subsection \<open>A negative threshold\<close>

lemma near_negative: "t < 0 \<Longrightarrow> \<not> qoi_px_near p q t"
  by (auto simp add: qoi_px_near_def)

lemma not_run_pixel_chunk: "\<not> is_run (pixel_chunk prev idx px)"
  by (simp add: pixel_chunk_def Let_def)

lemma enc_chunks_negative:
  "lossiness enc < 0 \<Longrightarrow> run enc = 0 \<Longrightarrow>
   run (write_pixels enc pxs) = 0 \<and> length (enc_chunks enc pxs) = length pxs \<and>
   (\<forall>c \<in> set (enc_chunks enc pxs). \<not> is_run c)"
proof (induction pxs arbitrary: enc)
  case Nil
  then show ?case by simp
next
  case (Cons px pxs)
  have n: "\<not> qoi_px_near px (prev_px enc) (lossiness enc)"
    using Cons.prems(1) by (rule near_negative)
  have "lossiness (qoi_write_pixel enc px) < 0" "run (qoi_write_pixel enc px) = 0"
    using Cons.prems n by (simp_all add: run_write_pixel)
  from Cons.IH [OF this] n Cons.prems show ?case
    by (simp add: not_run_pixel_chunk)
qed

text \<open>
  C10. With a negative threshold the near test fails for every pair of pixels, two
  equal pixels included. So a call of \<^verbatim>\<open>qoi_write_pixel\<close> never raises the run counter,
  and an encoder initialised with a negative threshold ends every pixel sequence
  with the counter at 0 and a stream of one opcode per pixel, none of them a RUN.
\<close>

theorem negative_threshold_never_runs:
  "(t < 0 \<longrightarrow> \<not> qoi_px_near p q t) \<and>
   (lossiness enc < 0 \<longrightarrow> run (qoi_write_pixel enc px) \<le> run enc) \<and>
   (t < 0 \<longrightarrow>
      run (write_pixels (qoi_encoder_init f t) pxs) = 0 \<and>
      (\<exists>cs. qoi_chunks (encode_stream t pxs) = Some cs \<and> length cs = length pxs \<and>
         (\<forall>c \<in> set cs. \<not> is_run c)))"
proof (intro conjI impI)
  assume "t < 0"
  then show "\<not> qoi_px_near p q t" by (rule near_negative)
next
  assume "lossiness enc < 0"
  then have "\<not> qoi_px_near px (prev_px enc) (lossiness enc)" by (rule near_negative)
  then show "run (qoi_write_pixel enc px) \<le> run enc" by (simp add: run_write_pixel)
next
  assume t: "t < 0"
  then show "run (write_pixels (qoi_encoder_init f t) pxs) = 0"
    using enc_chunks_negative [of "qoi_encoder_init f t" pxs]
    by (simp add: qoi_encoder_init_def)
  from t have "length (enc_chunks (qoi_encoder_init [] t) pxs) = length pxs \<and>
     (\<forall>c \<in> set (enc_chunks (qoi_encoder_init [] t) pxs). \<not> is_run c)"
    using enc_chunks_negative [of "qoi_encoder_init [] t" pxs]
    by (simp add: qoi_encoder_init_def)
  with chunks_encode_stream [of t pxs]
  show "\<exists>cs. qoi_chunks (encode_stream t pxs) = Some cs \<and> length cs = length pxs \<and>
         (\<forall>c \<in> set cs. \<not> is_run c)"
    by blast
qed

theorem negative_threshold_never_runs_witness:
  "(-1 :: int) < 0 \<and>
   \<not> qoi_px_near \<lparr> r = 5, g = 5, b = 5, a = 255 \<rparr> \<lparr> r = 5, g = 5, b = 5, a = 255 \<rparr> (-1) \<and>
   lossiness (qoi_encoder_init [] (-1)) < 0 \<and>
   run (qoi_write_pixel (qoi_encoder_init [] (-1)) \<lparr> r = 0, g = 0, b = 0, a = 255 \<rparr>) \<le> 0 \<and>
   run (write_pixels (qoi_encoder_init [] (-1))
     [\<lparr> r = 0, g = 0, b = 0, a = 255 \<rparr>, \<lparr> r = 0, g = 0, b = 0, a = 255 \<rparr>]) = 0 \<and>
   (\<exists>cs. qoi_chunks (encode_stream (-1)
       [\<lparr> r = 0, g = 0, b = 0, a = 255 \<rparr>, \<lparr> r = 0, g = 0, b = 0, a = 255 \<rparr>]) = Some cs \<and>
      length cs = 2 \<and> list_all (\<lambda>c. \<not> is_run c) cs)"
  using negative_threshold_never_runs [of "-1" "\<lparr> r = 5, g = 5, b = 5, a = 255 \<rparr>"
      "\<lparr> r = 5, g = 5, b = 5, a = 255 \<rparr>" "qoi_encoder_init [] (-1)"
      "\<lparr> r = 0, g = 0, b = 0, a = 255 \<rparr>" "[]"
      "[\<lparr> r = 0, g = 0, b = 0, a = 255 \<rparr>, \<lparr> r = 0, g = 0, b = 0, a = 255 \<rparr>]"]
  by (auto simp add: qoi_encoder_init_def list_all_iff)

subsection \<open>A pixel found in the cache\<close>

lemma index_byte_plain:
  "(word_of_int (QOI_OP_INDEX OR n) :: u8) = word_of_int n"
  by (simp add: QOI_OP_INDEX_def)

lemma unat_hash: "unat (word_of_int (qoi_color_hash px) :: u8) = nat (qoi_color_hash px)"
proof -
  have "uint (word_of_int (qoi_color_hash px) :: u8) = qoi_color_hash px"
    using hash_range [of px] by (intro uint_small) simp_all
  then show ?thesis by (simp only: unat_eq_nat_uint)
qed

lemma pixel_op_hit:
  "idx ! nat (qoi_color_hash px) = px \<Longrightarrow>
   pixel_op prev idx px = [word_of_int (qoi_color_hash px)]"
  by (simp add: pixel_op_def Let_def QOI_OP_INDEX_def)

lemma init_fields:
  "file_out (qoi_encoder_init f t) = f" "run (qoi_encoder_init f t) = 0"
  "prev_px (qoi_encoder_init f t) = \<lparr> r = 0, g = 0, b = 0, a = 255 \<rparr>"
  "index (qoi_encoder_init f t) = replicate 64 \<lparr> r = 0, g = 0, b = 0, a = 0 \<rparr>"
  "lossiness (qoi_encoder_init f t) = t"
  by (simp_all add: qoi_encoder_init_def)

text \<open>
  C6, as the code has it. Let the cache slot of the hash of \<open>px\<close> hold \<open>px\<close>. If \<open>px\<close>
  fails the near test against the previous pixel, \<^verbatim>\<open>qoi_write_pixel\<close> writes the flush
  of the pending run, if there is one, and then the one-byte INDEX opcode naming the
  slot, and nothing longer. If \<open>px\<close> passes the near test, the run branch comes first:
  the pixel is absorbed and nothing is written but the RUN byte at the cap.
\<close>

theorem cache_hit_emits_index:
  "index enc ! nat (qoi_color_hash px) = px \<longrightarrow>
     (if qoi_px_near px (prev_px enc) (lossiness enc) then
        file_out (qoi_write_pixel enc px) =
          file_out enc @ (if run enc = 61 then [0xfd] else [])
      else
        file_out (qoi_write_pixel enc px) =
          file_out enc
          @ (if run enc > 0 then [word_of_int (QOI_OP_RUN OR (run enc - 1))] else [])
          @ [word_of_int (qoi_color_hash px)]) \<and>
     qoi_chunks [word_of_int (qoi_color_hash px)] =
       Some [CH_INDEX (word_of_int (qoi_color_hash px))] \<and>
     unat (word_of_int (qoi_color_hash px) :: u8) = nat (qoi_color_hash px)"
proof
  assume h: "index enc ! nat (qoi_color_hash px) = px"
  have "qoi_chunks (word_of_int (QOI_OP_INDEX OR qoi_color_hash px) # []) =
      map_option ((#) (CH_INDEX (word_of_int (qoi_color_hash px)))) (qoi_chunks [])"
    by (intro chunks_index_byte hash_range)
  then have c: "qoi_chunks [word_of_int (qoi_color_hash px)] =
       Some [CH_INDEX (word_of_int (qoi_color_hash px))]"
    by (simp add: index_byte_plain del: qoi_chunks.simps(2))
  from h c unat_hash [of px]
  show "(if qoi_px_near px (prev_px enc) (lossiness enc) then
        file_out (qoi_write_pixel enc px) =
          file_out enc @ (if run enc = 61 then [0xfd] else [])
      else
        file_out (qoi_write_pixel enc px) =
          file_out enc
          @ (if run enc > 0 then [word_of_int (QOI_OP_RUN OR (run enc - 1))] else [])
          @ [word_of_int (qoi_color_hash px)]) \<and>
     qoi_chunks [word_of_int (qoi_color_hash px)] =
       Some [CH_INDEX (word_of_int (qoi_color_hash px))] \<and>
     unat (word_of_int (qoi_color_hash px) :: u8) = nat (qoi_color_hash px)"
    by (simp add: file_out_write_pixel pixel_op_hit run_flush_def del: qoi_chunks.simps(2))
qed

theorem cache_hit_emits_index_witness:
  "index (qoi_encoder_init [] 0) ! nat (qoi_color_hash \<lparr> r = 0, g = 0, b = 0, a = 0 \<rparr>) =
     \<lparr> r = 0, g = 0, b = 0, a = 0 \<rparr> \<and>
   \<not> qoi_px_near \<lparr> r = 0, g = 0, b = 0, a = 0 \<rparr> (prev_px (qoi_encoder_init [] 0))
     (lossiness (qoi_encoder_init [] 0)) \<and>
   file_out (qoi_write_pixel (qoi_encoder_init [] 0) \<lparr> r = 0, g = 0, b = 0, a = 0 \<rparr>) = [0x00] \<and>
   qoi_chunks [0x00] = Some [CH_INDEX 0] \<and>
   qoi_px_near \<lparr> r = 0, g = 0, b = 0, a = 0 \<rparr>
     (prev_px ((qoi_encoder_init [] 0)\<lparr> run := 61, prev_px := \<lparr> r = 0, g = 0, b = 0, a = 0 \<rparr> \<rparr>))
     (lossiness ((qoi_encoder_init [] 0)\<lparr> run := 61, prev_px := \<lparr> r = 0, g = 0, b = 0, a = 0 \<rparr> \<rparr>)) \<and>
   file_out (qoi_write_pixel
     ((qoi_encoder_init [] 0)\<lparr> run := 61, prev_px := \<lparr> r = 0, g = 0, b = 0, a = 0 \<rparr> \<rparr>)
     \<lparr> r = 0, g = 0, b = 0, a = 0 \<rparr>) = [0xfd]"
  using
    cache_hit_emits_index [of "qoi_encoder_init [] 0" "\<lparr> r = 0, g = 0, b = 0, a = 0 \<rparr>"]
    cache_hit_emits_index
      [of "(qoi_encoder_init [] 0)\<lparr> run := 61, prev_px := \<lparr> r = 0, g = 0, b = 0, a = 0 \<rparr> \<rparr>"
          "\<lparr> r = 0, g = 0, b = 0, a = 0 \<rparr>"]
  by (simp add: init_fields qoi_px_near_def qoi_color_hash_def)

text \<open>
  Without the condition on the near test the statement fails: after the pixel
  \<open>(10, 10, 10, 255)\<close> its slot holds it, and encoding it again writes no byte at all.
\<close>

theorem cache_hit_absorbed_counterexample:
  "index (qoi_write_pixel (qoi_encoder_init [] 0) \<lparr> r = 10, g = 10, b = 10, a = 255 \<rparr>)
     ! nat (qoi_color_hash \<lparr> r = 10, g = 10, b = 10, a = 255 \<rparr>) =
     \<lparr> r = 10, g = 10, b = 10, a = 255 \<rparr> \<and>
   file_out (qoi_write_pixel (qoi_encoder_init [] 0) \<lparr> r = 10, g = 10, b = 10, a = 255 \<rparr>) =
     [0xaa, 0x88] \<and>
   file_out (qoi_write_pixel
       (qoi_write_pixel (qoi_encoder_init [] 0) \<lparr> r = 10, g = 10, b = 10, a = 255 \<rparr>)
       \<lparr> r = 10, g = 10, b = 10, a = 255 \<rparr>) = [0xaa, 0x88]"
  by (simp add: write_pixel_fields init_fields qoi_px_near_def qoi_color_hash_def
        pixel_op_def run_flush_def QOI_OP_LUMA_def)

subsection \<open>A change of alpha alone\<close>

lemma pixel_op_alpha:
  assumes "a px \<noteq> a prev"
  shows "pixel_op prev idx px =
    (if idx ! nat (qoi_color_hash px) = px then [word_of_int (qoi_color_hash px)]
     else [0xff, r px, g px, b px, a px])"
proof -
  have "uint (a px) - uint (a prev) \<noteq> 0" using assms by (simp add: word_uint_eq_iff)
  with assms show ?thesis
    by (simp add: pixel_op_def Let_def QOI_OP_INDEX_def QOI_OP_RGBA_def)
qed

text \<open>
  C7, as the code has it. A pixel that differs from the previous pixel in alpha only
  fails the near test at every threshold, so it is not absorbed into a run, and it is
  written (after the flush of a pending run) neither as DIFF nor as LUMA nor as RGB:
  as the one-byte INDEX opcode when its cache slot holds it, and as the RGBA opcode
  \<open>0xFF\<close> with its four bytes otherwise.
\<close>

theorem alpha_change_is_rgba_or_index:
  "r px = r (prev_px enc) \<and> g px = g (prev_px enc) \<and> b px = b (prev_px enc) \<and>
   a px \<noteq> a (prev_px enc) \<longrightarrow>
     \<not> qoi_px_near px (prev_px enc) (lossiness enc) \<and>
     file_out (qoi_write_pixel enc px) =
       file_out enc
       @ (if run enc > 0 then [word_of_int (QOI_OP_RUN OR (run enc - 1))] else [])
       @ (if index enc ! nat (qoi_color_hash px) = px then [word_of_int (qoi_color_hash px)]
          else [0xff, r px, g px, b px, a px]) \<and>
     prev_px (qoi_write_pixel enc px) = px"
proof
  assume h: "r px = r (prev_px enc) \<and> g px = g (prev_px enc) \<and> b px = b (prev_px enc) \<and>
   a px \<noteq> a (prev_px enc)"
  then have n: "\<not> qoi_px_near px (prev_px enc) (lossiness enc)"
    by (simp add: qoi_px_near_def)
  from h have "a px \<noteq> a (prev_px enc)" by simp
  note p = pixel_op_alpha [OF this, of "index enc"]
  from n show "\<not> qoi_px_near px (prev_px enc) (lossiness enc) \<and>
     file_out (qoi_write_pixel enc px) =
       file_out enc
       @ (if run enc > 0 then [word_of_int (QOI_OP_RUN OR (run enc - 1))] else [])
       @ (if index enc ! nat (qoi_color_hash px) = px then [word_of_int (qoi_color_hash px)]
          else [0xff, r px, g px, b px, a px]) \<and>
     prev_px (qoi_write_pixel enc px) = px"
    by (simp add: file_out_write_pixel prev_px_write_pixel p run_flush_def)
qed

theorem alpha_change_is_rgba_or_index_witness:
  "r \<lparr> r = 0, g = 0, b = 0, a = 7 \<rparr> = r (prev_px (qoi_encoder_init [] 3)) \<and>
   g \<lparr> r = 0, g = 0, b = 0, a = 7 \<rparr> = g (prev_px (qoi_encoder_init [] 3)) \<and>
   b \<lparr> r = 0, g = 0, b = 0, a = 7 \<rparr> = b (prev_px (qoi_encoder_init [] 3)) \<and>
   a \<lparr> r = 0, g = 0, b = 0, a = 7 \<rparr> \<noteq> a (prev_px (qoi_encoder_init [] 3)) \<and>
   \<not> qoi_px_near \<lparr> r = 0, g = 0, b = 0, a = 7 \<rparr> (prev_px (qoi_encoder_init [] 3))
       (lossiness (qoi_encoder_init [] 3)) \<and>
   file_out (qoi_write_pixel (qoi_encoder_init [] 3) \<lparr> r = 0, g = 0, b = 0, a = 7 \<rparr>) =
     [0xff, 0, 0, 0, 7] \<and>
   prev_px (qoi_write_pixel (qoi_encoder_init [] 3) \<lparr> r = 0, g = 0, b = 0, a = 7 \<rparr>) =
     \<lparr> r = 0, g = 0, b = 0, a = 7 \<rparr>"
  using alpha_change_is_rgba_or_index [of "\<lparr> r = 0, g = 0, b = 0, a = 7 \<rparr>" "qoi_encoder_init [] 3"]
  by (simp add: init_fields qoi_color_hash_def)

text \<open>
  That such a pixel is always written as RGBA fails on the first pixel
  \<open>(0, 0, 0, 0)\<close> of a stream: it differs from the initial previous pixel
  \<open>(0, 0, 0, 255)\<close> in alpha only, slot 0 of the zeroed cache holds it, and the encoder
  writes the INDEX byte \<open>0x00\<close>.
\<close>

theorem alpha_change_index_counterexample:
  "r \<lparr> r = 0, g = 0, b = 0, a = 0 \<rparr> = r (prev_px (qoi_encoder_init [] 0)) \<and>
   g \<lparr> r = 0, g = 0, b = 0, a = 0 \<rparr> = g (prev_px (qoi_encoder_init [] 0)) \<and>
   b \<lparr> r = 0, g = 0, b = 0, a = 0 \<rparr> = b (prev_px (qoi_encoder_init [] 0)) \<and>
   a \<lparr> r = 0, g = 0, b = 0, a = 0 \<rparr> \<noteq> a (prev_px (qoi_encoder_init [] 0)) \<and>
   file_out (qoi_write_pixel (qoi_encoder_init [] 0) \<lparr> r = 0, g = 0, b = 0, a = 0 \<rparr>) = [0x00] \<and>
   file_out (qoi_write_pixel (qoi_encoder_init [] 0) \<lparr> r = 0, g = 0, b = 0, a = 0 \<rparr>) \<noteq>
     [0xff, 0, 0, 0, 0] \<and>
   qoi_chunks [0x00] = Some [CH_INDEX 0]"
  by (simp add: write_pixel_fields init_fields qoi_px_near_def qoi_color_hash_def
        pixel_op_def run_flush_def QOI_OP_INDEX_def)

subsection \<open>The whole file\<close>

lemma enc_bytes_cong:
  "run enc = run enc' \<Longrightarrow> prev_px enc = prev_px enc' \<Longrightarrow> index enc = index enc' \<Longrightarrow>
   lossiness enc = lossiness enc' \<Longrightarrow> enc_bytes enc pxs = enc_bytes enc' pxs"
proof (induction pxs arbitrary: enc enc')
  case Nil
  then show ?case by simp
next
  case (Cons px pxs)
  have "enc_bytes (qoi_write_pixel enc px) pxs = enc_bytes (qoi_write_pixel enc' px) pxs"
    by (rule Cons.IH) (simp_all add: write_pixel_fields Cons.prems)
  then show ?case by (simp add: Cons.prems)
qed

lemma convert_to_qoi_bytes:
  "convert_to_qoi (Some img) True t =
     Inr ([0x71, 0x6f, 0x69, 0x66,
           word_of_int (drop_bit 24 (width img)), word_of_int (drop_bit 16 (width img)),
           word_of_int (drop_bit 8 (width img)), word_of_int (width img),
           word_of_int (drop_bit 24 (height img)), word_of_int (drop_bit 16 (height img)),
           word_of_int (drop_bit 8 (height img)), word_of_int (height img),
           word_of_int (channels img), 0]
          @ encode_stream t (map (\<lambda>i. pixel_at img (int i)) [0 ..< nat (width img * height img)])
          @ [0, 0, 0, 0, 0, 0, 0, 1])"
proof -
  let ?pxs = "map (\<lambda>i. pixel_at img (int i)) [0 ..< nat (width img * height img)]"
  let ?e1 = "qoi_write_header (qoi_encoder_init [] t) (width img) (height img) (channels img)"
  have "enc_bytes ?e1 ?pxs = enc_bytes (qoi_encoder_init [] t) ?pxs"
    by (rule enc_bytes_cong) (simp_all add: qoi_write_header_def)
  then have "file_out (flush_final_run (write_pixels ?e1 ?pxs)) =
      file_out ?e1 @ encode_stream t ?pxs"
    by (simp only: file_out_stream encode_stream_bytes)
  then show ?thesis
    by (simp add: convert_to_qoi_def Let_def qoi_write_footer_def qoi_write_bytes_def)
       (simp add: qoi_write_header_def qoi_write_bytes_def init_fields)
qed

lemma be32:
  assumes "0 \<le> w" "w < 2 ^ 32"
  shows "uint (word_of_int (drop_bit 24 w) :: u8) * 2 ^ 24
       + uint (word_of_int (drop_bit 16 w) :: u8) * 2 ^ 16
       + uint (word_of_int (drop_bit 8 w) :: u8) * 2 ^ 8
       + uint (word_of_int w :: u8) = w"
proof -
  define x1 where "x1 = w div 256"
  define x2 where "x2 = x1 div 256"
  define x3 where "x3 = x2 div 256"
  define m0 where "m0 = w mod 256"
  define m1 where "m1 = x1 mod 256"
  define m2 where "m2 = x2 mod 256"
  have e1: "w = x1 * 256 + m0" by (simp add: x1_def m0_def)
  have e2: "x1 = x2 * 256 + m1" by (simp add: x2_def m1_def)
  have e3: "x2 = x3 * 256 + m2" by (simp add: x3_def m2_def)
  have d2: "w div 65536 = x2"
    using zdiv_zmult2_eq [of 256 w 256] by (simp add: x1_def x2_def)
  have d3: "w div 16777216 = x3"
    using zdiv_zmult2_eq [of 256 w 65536] by (simp add: d2 x3_def)
  have "0 \<le> x3" "x3 < 256"
    using assms by (simp_all add: d3 [symmetric] div_less_iff_less_mult pos_imp_zdiv_nonneg_iff)
  then have m3: "x3 mod 256 = x3" by simp
  have "x3 * 16777216 + m2 * 65536 + m1 * 256 + m0 = w"
    using e1 e2 e3 by linarith
  then show ?thesis
    by (simp add: uint_word_of_int drop_bit_eq_div d2 d3 m3 x1_def [symmetric]
          m0_def [symmetric] m1_def [symmetric] m2_def [symmetric])
qed

lemma qoif_magic: "map (\<lambda>c. of_nat (of_char c)) ''qoif'' = [0x71, 0x6f, 0x69, 0x66 :: u8]"
  by simp

text \<open>
  The framing that the code writes, for every loaded image and every threshold: the
  14 bytes of the header, the opcode stream of the pixels, and the 8 bytes
  \<open>00 00 00 00 00 00 00 01\<close>. The header is the magic \<open>qoif\<close>, the four bytes of the
  width and the four bytes of the height from the most significant down (together the
  big-endian value, for dimensions that fit 32 bits), then the low byte of the
  channel count that the loader reported, which is that count itself when it is below
  256, and the byte 0.
\<close>

theorem output_framing:
  "convert_to_qoi (Some img) True t =
     Inr ([0x71, 0x6f, 0x69, 0x66,
           word_of_int (drop_bit 24 (width img)), word_of_int (drop_bit 16 (width img)),
           word_of_int (drop_bit 8 (width img)), word_of_int (width img),
           word_of_int (drop_bit 24 (height img)), word_of_int (drop_bit 16 (height img)),
           word_of_int (drop_bit 8 (height img)), word_of_int (height img),
           word_of_int (channels img), 0]
          @ encode_stream t (map (\<lambda>i. pixel_at img (int i)) [0 ..< nat (width img * height img)])
          @ [0, 0, 0, 0, 0, 0, 0, 1]) \<and>
   map (\<lambda>c. of_nat (of_char c)) ''qoif'' = [0x71, 0x6f, 0x69, 0x66 :: u8] \<and>
   (0 \<le> width img \<and> width img < 2 ^ 32 \<longrightarrow>
      uint (word_of_int (drop_bit 24 (width img)) :: u8) * 2 ^ 24
      + uint (word_of_int (drop_bit 16 (width img)) :: u8) * 2 ^ 16
      + uint (word_of_int (drop_bit 8 (width img)) :: u8) * 2 ^ 8
      + uint (word_of_int (width img) :: u8) = width img) \<and>
   (0 \<le> height img \<and> height img < 2 ^ 32 \<longrightarrow>
      uint (word_of_int (drop_bit 24 (height img)) :: u8) * 2 ^ 24
      + uint (word_of_int (drop_bit 16 (height img)) :: u8) * 2 ^ 16
      + uint (word_of_int (drop_bit 8 (height img)) :: u8) * 2 ^ 8
      + uint (word_of_int (height img) :: u8) = height img) \<and>
   (0 \<le> channels img \<and> channels img < 256 \<longrightarrow>
      uint (word_of_int (channels img) :: u8) = channels img)"
  using be32 [of "width img"] be32 [of "height img"] uint_small [of "channels img"]
  by (simp only: convert_to_qoi_bytes qoif_magic) simp

theorem output_framing_witness:
  "(0::int) \<le> 2 \<and> (2::int) < 2 ^ 32 \<and> (0::int) \<le> 1 \<and> (1::int) < 2 ^ 32 \<and>
   (0::int) \<le> 4 \<and> (4::int) < 256 \<and>
   uint (word_of_int (channels \<lparr> width = 2, height = 1, channels = 4,
      data = [10, 10, 10, 255, 11, 9, 11, 255] \<rparr>) :: u8) = 4 \<and>
   (\<exists>body. convert_to_qoi (Some \<lparr> width = 2, height = 1, channels = 4,
      data = [10, 10, 10, 255, 11, 9, 11, 255] \<rparr>) True 0 =
      Inr ([0x71, 0x6f, 0x69, 0x66, 0, 0, 0, 2, 0, 0, 0, 1, 4, 0] @ body
           @ [0, 0, 0, 0, 0, 0, 0, 1]))"
  using output_framing [of "\<lparr> width = 2, height = 1, channels = 4,
      data = [10, 10, 10, 255, 11, 9, 11, 255] \<rparr>" 0]
  by simp

text \<open>
  C9. The header is to carry a channel byte that is 3 or 4. The code breaks this on
  sources of fewer channels: the loader is asked for the channels of the source image,
  the pixel loop turns every raster into pixels of four channels, and the header gets
  the loader's count as it is. For a grey image of one pixel the thirteenth byte of
  the output is 1, and for a grey image with alpha it is 2 (where the loop also takes
  the alpha of the source for the green channel).
\<close>

theorem grey_image_channel_byte:
  "convert_to_qoi (Some \<lparr> width = 1, height = 1, channels = 1, data = [7] \<rparr>) True 0 =
     Inr [0x71, 0x6f, 0x69, 0x66, 0, 0, 0, 1, 0, 0, 0, 1, 1, 0, 0xa7, 0x88,
          0, 0, 0, 0, 0, 0, 0, 1] \<and>
   [0x71, 0x6f, 0x69, 0x66, 0, 0, 0, 1, 0, 0, 0, 1, 1, 0, 0xa7, 0x88,
          0, 0, 0, 0, 0, 0, 0, 1] ! 12 = (1 :: u8) \<and>
   (1 :: u8) \<noteq> 3 \<and> (1 :: u8) \<noteq> 4 \<and>
   pixel_at \<lparr> width = 1, height = 1, channels = 2, data = [7, 9] \<rparr> 0 =
     \<lparr> r = 7, g = 9, b = 7, a = 255 \<rparr> \<and>
   convert_to_qoi (Some \<lparr> width = 1, height = 1, channels = 2, data = [7, 9] \<rparr>) True 0 =
     Inr [0x71, 0x6f, 0x69, 0x66, 0, 0, 0, 1, 0, 0, 0, 1, 2, 0, 0xa9, 0x66,
          0, 0, 0, 0, 0, 0, 0, 1]"
  by (simp add: convert_to_qoi_bytes encode_stream_bytes pixel_at_def write_pixel_fields
        init_fields qoi_px_near_def qoi_color_hash_def pixel_op_def run_flush_def
        QOI_OP_LUMA_def)

subsection \<open>The image of two pixels\<close>

lemma two_pixel_image:
  "map (\<lambda>i. pixel_at \<lparr> width = 2, height = 1, channels = 4,
      data = [10, 10, 10, 255, 11, 9, 11, 255] \<rparr> (int i)) [0 ..< nat (2 * 1)] =
   [\<lparr> r = 10, g = 10, b = 10, a = 255 \<rparr>, \<lparr> r = 11, g = 9, b = 11, a = 255 \<rparr>]"
proof -
  have "[0 ..< nat (2 * 1)] = [0, Suc 0]" by (simp add: upt_rec)
  then show ?thesis by (simp add: pixel_at_def)
qed

lemma two_pixel_stream:
  "encode_stream 0
     [\<lparr> r = 10, g = 10, b = 10, a = 255 \<rparr>, \<lparr> r = 11, g = 9, b = 11, a = 255 \<rparr>] =
   [0xaa, 0x88, 0x77]"
  by (simp add: encode_stream_bytes write_pixel_fields
        init_fields qoi_px_near_def qoi_color_hash_def pixel_op_def run_flush_def
        QOI_OP_LUMA_def QOI_OP_DIFF_def)

text \<open>
  C8, as the code has it. At threshold 0 the image of width 2 and height 1 with the
  pixels \<open>(10, 10, 10, 255)\<close> and \<open>(11, 9, 11, 255)\<close> becomes 25 bytes: the header for
  \<open>(2, 1, 4, 0)\<close>, the two bytes \<open>AA 88\<close> of a LUMA opcode for the first pixel (green
  delta 10, both other deltas equal to it), the byte \<open>77\<close> of a DIFF opcode for the
  second pixel (deltas 1, -1, 1), and the footer.
\<close>

theorem two_pixel_scenario:
  "convert_to_qoi (Some \<lparr> width = 2, height = 1, channels = 4,
      data = [10, 10, 10, 255, 11, 9, 11, 255] \<rparr>) True 0 =
     Inr [0x71, 0x6f, 0x69, 0x66, 0, 0, 0, 2, 0, 0, 0, 1, 4, 0, 0xaa, 0x88, 0x77,
          0, 0, 0, 0, 0, 0, 0, 1] \<and>
   length [0x71, 0x6f, 0x69, 0x66, 0, 0, 0, 2, 0, 0, 0, 1, 4, 0, 0xaa, 0x88, 0x77,
          0, 0, 0, 0, 0, 0, 0, 1 :: u8] = 25 \<and>
   qoi_chunks [0xaa, 0x88, 0x77] = Some [CH_LUMA 42 8 8, CH_DIFF 3 1 3]"
  using two_pixel_image two_pixel_stream by (simp add: convert_to_qoi_bytes)

text \<open>
  The output is not the 23 bytes of a header, one DIFF byte and a footer: the first
  pixel has an opcode of its own.
\<close>

theorem two_pixel_scenario_counterexample:
  "convert_to_qoi (Some \<lparr> width = 2, height = 1, channels = 4,
      data = [10, 10, 10, 255, 11, 9, 11, 255] \<rparr>) True 0 \<noteq>
     Inr [0x71, 0x6f, 0x69, 0x66, 0, 0, 0, 2, 0, 0, 0, 1, 4, 0, 0x77,
          0, 0, 0, 0, 0, 0, 0, 1] \<and>
   length (projr (convert_to_qoi (Some \<lparr> width = 2, height = 1, channels = 4,
      data = [10, 10, 10, 255, 11, 9, 11, 255] \<rparr>) True 0)) \<noteq> 23"
  using two_pixel_image two_pixel_stream by (simp add: convert_to_qoi_bytes)

subsection \<open>A hundred equal pixels\<close>

lemma enc_chunks_cong:
  "run enc = run enc' \<Longrightarrow> prev_px enc = prev_px enc' \<Longrightarrow> index enc = index enc' \<Longrightarrow>
   lossiness enc = lossiness enc' \<Longrightarrow> enc_chunks enc pxs = enc_chunks enc' pxs"
proof (induction pxs arbitrary: enc enc')
  case Nil
  then show ?case by simp
next
  case (Cons px pxs)
  have "enc_chunks (qoi_write_pixel enc px) pxs = enc_chunks (qoi_write_pixel enc' px) pxs"
    by (rule Cons.IH) (simp_all add: write_pixel_fields Cons.prems)
  then show ?case by (simp add: Cons.prems)
qed

text \<open>A block of equal near pixels below the cap only raises the counter.\<close>

lemma enc_chunks_near_block:
  "qoi_px_near p (prev_px enc) (lossiness enc) \<Longrightarrow> run enc + int n \<le> 61 \<Longrightarrow>
   enc_chunks enc (replicate n p @ rest) = enc_chunks (enc\<lparr> run := run enc + int n \<rparr>) rest"
proof (induction n arbitrary: enc)
  case 0
  then show ?case by simp
next
  case (Suc n)
  let ?e = "enc\<lparr> run := run enc + 1 \<rparr>"
  have w: "qoi_write_pixel enc p = ?e"
    using Suc.prems by (simp add: write_pixel_near)
  have "enc_chunks ?e (replicate n p @ rest) = enc_chunks (?e\<lparr> run := run ?e + int n \<rparr>) rest"
    using Suc.prems by (intro Suc.IH) simp_all
  with Suc.prems show ?case by (simp add: w add.assoc)
qed

lemma enc_chunks_cap:
  assumes "qoi_px_near p (prev_px enc) (lossiness enc)" "run enc = 61"
  shows "enc_chunks enc (p # rest) = CH_RUN 61 # enc_chunks (enc\<lparr> run := 0 \<rparr>) rest"
proof -
  have "enc_chunks (qoi_write_pixel enc p) rest = enc_chunks (enc\<lparr> run := 0 \<rparr>) rest"
    using assms by (intro enc_chunks_cong) (simp_all add: write_pixel_fields)
  with assms show ?thesis by simp
qed

lemma enc_chunks_long_run:
  assumes n: "qoi_px_near p (prev_px enc) (lossiness enc)" and r: "run enc = 0"
    and k: "k \<le> 61"
  shows "enc_chunks enc (replicate (62 + k) p) =
     [CH_RUN 61] @ (if k = 0 then [] else [CH_RUN (word_of_int (int k - 1))])"
proof -
  have "62 + k = 61 + Suc k" by simp
  then have s: "replicate (62 + k) p = replicate 61 p @ (p # (replicate k p @ []))"
    by (simp only: replicate_add replicate_Suc append_Nil2)
  have 1: "enc_chunks enc (replicate 61 p @ (p # (replicate k p @ []))) =
      enc_chunks (enc\<lparr> run := 61 \<rparr>) (p # (replicate k p @ []))"
    using enc_chunks_near_block [OF n, of 61 "p # (replicate k p @ [])"] r by simp
  have 2: "enc_chunks (enc\<lparr> run := 61 \<rparr>) (p # (replicate k p @ [])) =
      CH_RUN 61 # enc_chunks (enc\<lparr> run := 0 \<rparr>) (replicate k p @ [])"
    using enc_chunks_cap [of p "enc\<lparr> run := 61 \<rparr>" "replicate k p @ []"] n by simp
  have 3: "enc_chunks (enc\<lparr> run := 0 \<rparr>) (replicate k p @ []) =
      enc_chunks (enc\<lparr> run := int k \<rparr>) []"
    using enc_chunks_near_block [of p "enc\<lparr> run := 0 \<rparr>" k "[]"] n k by simp
  show ?thesis unfolding s 1 2 3 by simp
qed

lemma near_self: "0 \<le> t \<Longrightarrow> qoi_px_near p p t"
  by (simp add: qoi_px_near_def)

lemma hundred_chunks:
  assumes "0 \<le> t"
  shows "enc_chunks (qoi_encoder_init [] t) (replicate 100 p) =
     (if qoi_px_near p \<lparr> r = 0, g = 0, b = 0, a = 255 \<rparr> t then [CH_RUN 61, CH_RUN 37]
      else [pixel_chunk \<lparr> r = 0, g = 0, b = 0, a = 255 \<rparr>
              (replicate 64 \<lparr> r = 0, g = 0, b = 0, a = 0 \<rparr>) p, CH_RUN 61, CH_RUN 36])"
proof (cases "qoi_px_near p \<lparr> r = 0, g = 0, b = 0, a = 255 \<rparr> t")
  case True
  then have "enc_chunks (qoi_encoder_init [] t) (replicate (62 + 38) p) =
     [CH_RUN 61] @ (if (38::nat) = 0 then [] else [CH_RUN (word_of_int (int 38 - 1))])"
    by (intro enc_chunks_long_run) (simp_all add: init_fields)
  with True show ?thesis by simp
next
  case False
  let ?e = "qoi_write_pixel (qoi_encoder_init [] t) p"
  have f: "prev_px ?e = p" "run ?e = 0" "lossiness ?e = t"
    using False by (simp_all add: write_pixel_fields init_fields)
  have "enc_chunks ?e (replicate (62 + 37) p) =
     [CH_RUN 61] @ (if (37::nat) = 0 then [] else [CH_RUN (word_of_int (int 37 - 1))])"
    using assms by (intro enc_chunks_long_run) (simp_all add: f near_self init_fields)
  then have "enc_chunks ?e (replicate 99 p) = [CH_RUN 61, CH_RUN 36]" by simp
  moreover have "replicate 100 p = p # replicate 99 p"
    by (simp add: replicate_Suc [symmetric] del: replicate_Suc)
  ultimately show ?thesis using False by (simp add: init_fields)
qed

text \<open>
  C5, as the code has it. Let the threshold be at least 0 and let 100 pixels all equal
  to \<open>p\<close> be encoded from the initial state. If \<open>p\<close> is near the initial previous pixel
  \<open>(0, 0, 0, 255)\<close>, the stream is exactly two RUN opcodes, of 62 and of 38 pixels. If
  not, the first pixel has an opcode of its own, which is not a RUN, and the other 99
  are two RUN opcodes, of 62 and of 37 pixels. In both cases there are exactly two
  RUN opcodes and none stands for more than 62 pixels.
\<close>

theorem hundred_equal_pixels:
  "0 \<le> t \<longrightarrow>
     (if qoi_px_near p \<lparr> r = 0, g = 0, b = 0, a = 255 \<rparr> t then
        qoi_chunks (encode_stream t (replicate 100 p)) = Some [CH_RUN 61, CH_RUN 37]
      else
        (\<exists>c. \<not> is_run c \<and>
           qoi_chunks (encode_stream t (replicate 100 p)) = Some [c, CH_RUN 61, CH_RUN 36])) \<and>
     chunk_count (CH_RUN 61) = 62 \<and> chunk_count (CH_RUN 37) = 38 \<and>
     chunk_count (CH_RUN 36) = 37"
proof
  assume t: "0 \<le> t"
  show "(if qoi_px_near p \<lparr> r = 0, g = 0, b = 0, a = 255 \<rparr> t then
        qoi_chunks (encode_stream t (replicate 100 p)) = Some [CH_RUN 61, CH_RUN 37]
      else
        (\<exists>c. \<not> is_run c \<and>
           qoi_chunks (encode_stream t (replicate 100 p)) = Some [c, CH_RUN 61, CH_RUN 36])) \<and>
     chunk_count (CH_RUN 61) = 62 \<and> chunk_count (CH_RUN 37) = 38 \<and>
     chunk_count (CH_RUN 36) = 37"
  proof (cases "qoi_px_near p \<lparr> r = 0, g = 0, b = 0, a = 255 \<rparr> t")
    case True
    with hundred_chunks [OF t, of p] show ?thesis
      by (simp add: chunks_encode_stream)
  next
    case False
    with hundred_chunks [OF t, of p] not_run_pixel_chunk show ?thesis
      by (simp add: chunks_encode_stream)
  qed
qed

theorem hundred_equal_pixels_witness:
  "(0 :: int) \<le> 0 \<and>
   qoi_px_near \<lparr> r = 0, g = 0, b = 0, a = 255 \<rparr> \<lparr> r = 0, g = 0, b = 0, a = 255 \<rparr> 0 \<and>
   qoi_chunks (encode_stream 0 (replicate 100 \<lparr> r = 0, g = 0, b = 0, a = 255 \<rparr>)) =
     Some [CH_RUN 61, CH_RUN 37] \<and>
   \<not> qoi_px_near \<lparr> r = 10, g = 10, b = 10, a = 255 \<rparr> \<lparr> r = 0, g = 0, b = 0, a = 255 \<rparr> 0 \<and>
   (\<exists>c. \<not> is_run c \<and>
      qoi_chunks (encode_stream 0 (replicate 100 \<lparr> r = 10, g = 10, b = 10, a = 255 \<rparr>)) =
        Some [c, CH_RUN 61, CH_RUN 36])"
  using hundred_equal_pixels [of 0 "\<lparr> r = 0, g = 0, b = 0, a = 255 \<rparr>"]
    hundred_equal_pixels [of 0 "\<lparr> r = 10, g = 10, b = 10, a = 255 \<rparr>"]
  by (simp add: qoi_px_near_def)

text \<open>
  The split 62 + 38 fails for a pixel that is not near \<open>(0, 0, 0, 255)\<close>: a hundred
  pixels \<open>(10, 10, 10, 255)\<close> at threshold 0 are a LUMA opcode and runs of 62 and 37.
\<close>

theorem hundred_equal_pixels_counterexample:
  "qoi_chunks (encode_stream 0 (replicate 100 \<lparr> r = 10, g = 10, b = 10, a = 255 \<rparr>)) =
     Some [CH_LUMA 42 8 8, CH_RUN 61, CH_RUN 36] \<and>
   map chunk_count (filter is_run [CH_LUMA 42 8 8, CH_RUN 61, CH_RUN 36]) = [62, 37]"
  using hundred_chunks [of 0 "\<lparr> r = 10, g = 10, b = 10, a = 255 \<rparr>"]
  by (simp add: chunks_encode_stream qoi_px_near_def pixel_chunk_def qoi_color_hash_def)

subsection \<open>The threshold and the absorbed pixels\<close>


lemma near_zero: "qoi_px_near p q 0 \<longleftrightarrow> p = q"
  by (cases p; cases q) (auto simp add: qoi_px_near_def word_uint_eq_iff)











subsection \<open>Decoding a lossless stream\<close>

lemma hash_nat: "nat (qoi_color_hash px) < 64" "int (nat (qoi_color_hash px)) = qoi_color_hash px"
  using hash_range [of px] by simp_all

lemma cache_ok_init:
  "cache_ok \<lparr> r = 0, g = 0, b = 0, a = 255 \<rparr> (replicate 64 \<lparr> r = 0, g = 0, b = 0, a = 0 \<rparr>)
     (replicate 64 \<lparr> r = 0, g = 0, b = 0, a = 0 \<rparr>)"
  by (simp add: cache_ok_def qoi_color_hash_def)

lemma cache_ok_flush:
  assumes "cache_ok prev eidx didx"
  shows "cache_ok prev eidx (didx[nat (qoi_color_hash prev) := prev])"
proof -
  let ?h = "nat (qoi_color_hash prev)"
  have "didx[?h := prev] ! i = eidx ! i \<or> qoi_color_hash (eidx ! i) \<noteq> int i" if "i < 64" for i
  proof (cases "i = ?h")
    case True
    with assms hash_range [of prev] show ?thesis by (auto simp add: cache_ok_def)
  next
    case False
    with assms that show ?thesis by (simp add: cache_ok_def)
  qed
  with assms show ?thesis by (simp add: cache_ok_def)
qed

lemma cache_ok_step:
  assumes "cache_ok prev eidx didx"
  shows "cache_ok px (eidx[nat (qoi_color_hash px) := px]) (didx[nat (qoi_color_hash px) := px])"
proof -
  let ?h = "nat (qoi_color_hash px)"
  have "didx[?h := px] ! i = eidx[?h := px] ! i \<or> qoi_color_hash (eidx[?h := px] ! i) \<noteq> int i"
    if "i < 64" for i
    using assms that by (cases "i = ?h") (simp_all add: cache_ok_def)
  with assms show ?thesis by (simp add: cache_ok_def hash_nat)
qed

lemma cache_ok_hit:
  assumes "cache_ok prev eidx didx" "eidx ! nat (qoi_color_hash px) = px"
  shows "didx ! nat (qoi_color_hash px) = px"
proof -
  from assms(1) hash_nat(1) [of px]
  have "didx ! nat (qoi_color_hash px) = eidx ! nat (qoi_color_hash px) \<or>
        qoi_color_hash (eidx ! nat (qoi_color_hash px)) \<noteq> int (nat (qoi_color_hash px))"
    unfolding cache_ok_def by blast
  with assms(2) hash_range [of px] show ?thesis by auto
qed

lemma chunk_pixel_pixel_chunk:
  assumes "cache_ok prev eidx didx"
  shows "chunk_pixel prev didx (pixel_chunk prev eidx px) = px"
proof -
  define dr where "dr = uint (r px) - uint (r prev)"
  define dg where "dg = uint (g px) - uint (g prev)"
  define db where "db = uint (b px) - uint (b prev)"
  define da where "da = uint (a px) - uint (a prev)"
  define h where "h = qoi_color_hash px"
  define cd where
    "cd \<longleftrightarrow> da = 0 \<and> dr \<ge> -2 \<and> dr \<le> 1 \<and> dg \<ge> -2 \<and> dg \<le> 1 \<and> db \<ge> -2 \<and> db \<le> 1"
  define cl where
    "cl \<longleftrightarrow> da = 0 \<and> dg \<ge> -32 \<and> dg \<le> 31 \<and> (dr - dg) \<ge> -8 \<and> (dr - dg) \<le> 7 \<and>
                (db - dg) \<ge> -8 \<and> (db - dg) \<le> 7"
  have pc: "pixel_chunk prev eidx px =
     (if eidx ! nat h = px then CH_INDEX (word_of_int h)
      else if cd then CH_DIFF (word_of_int (dr + 2)) (word_of_int (dg + 2)) (word_of_int (db + 2))
      else if cl then
        CH_LUMA (word_of_int (dg + 32)) (word_of_int (dr - dg + 8)) (word_of_int (db - dg + 8))
      else if a px = a prev then CH_RGB (r px) (g px) (b px)
      else CH_RGBA (r px) (g px) (b px) (a px))"
    by (simp only: pixel_chunk_def Let_def dr_def dg_def db_def da_def h_def cd_def cl_def)
  have alpha: "a px = a prev" if "da = 0"
    using that by (simp add: da_def word_uint_eq_iff)
  have i: "chunk_pixel prev didx (CH_INDEX (word_of_int h)) = px" if "eidx ! nat h = px"
    using cache_ok_hit [OF assms, of px] that by (simp add: h_def unat_hash)
  have d: "chunk_pixel prev didx
      (CH_DIFF (word_of_int (dr + 2)) (word_of_int (dg + 2)) (word_of_int (db + 2))) = px" if cd
  proof -
    from that have "a px = a prev" by (simp add: cd_def alpha)
    then show ?thesis by (cases px; cases prev) (simp add: dr_def dg_def db_def)
  qed
  have l: "chunk_pixel prev didx
      (CH_LUMA (word_of_int (dg + 32)) (word_of_int (dr - dg + 8)) (word_of_int (db - dg + 8))) = px"
    if cl
  proof -
    from that have "a px = a prev" by (simp add: cl_def alpha)
    then show ?thesis by (cases px; cases prev) (simp add: dr_def dg_def db_def)
  qed
  have rgb: "chunk_pixel prev didx (CH_RGB (r px) (g px) (b px)) = px" if "a px = a prev"
    using that by (cases px; cases prev) simp
  have rgba: "chunk_pixel prev didx (CH_RGBA (r px) (g px) (b px) (a px)) = px"
    by (cases px) simp
  show ?thesis
    using i d l rgb rgba
    by (cases "eidx ! nat h = px"; cases cd; cases cl; cases "a px = a prev";
        simp add: pc del: chunk_pixel.simps)
qed

lemma chunk_count_not_run: "\<not> is_run c \<Longrightarrow> chunk_count c = 1"
  by (cases c) simp_all

lemma decode_enc_chunks:
  "lossiness enc = 0 \<Longrightarrow> 0 \<le> run enc \<Longrightarrow> run enc \<le> 61 \<Longrightarrow>
   cache_ok (prev_px enc) (index enc) didx \<Longrightarrow>
   decode_chunks (prev_px enc) didx (enc_chunks enc pxs) =
     replicate (nat (run enc)) (prev_px enc) @ pxs"
proof (induction pxs arbitrary: enc didx)
  case Nil
  then show ?case by (auto simp add: unat_run_byte Let_def)
next
  case (Cons px pxs)
  let ?e = "qoi_write_pixel enc px"
  let ?prev = "prev_px enc"
  let ?fl = "didx[nat (qoi_color_hash ?prev) := ?prev]"
  note rr = run_range_write_pixel [OF Cons.prems(2,3), of px]
  have l: "lossiness ?e = 0" using Cons.prems(1) by simp
  show ?case
  proof (cases "qoi_px_near px ?prev (lossiness enc)")
    case True
    then have eq: "px = ?prev" using Cons.prems(1) by (simp add: near_zero)
    have f: "prev_px ?e = ?prev" "index ?e = index enc"
      using True by (simp_all add: write_pixel_fields)
    show ?thesis
    proof (cases "run enc = 61")
      case cap: True
      have "cache_ok (prev_px ?e) (index ?e) ?fl"
        using Cons.prems(4) by (simp add: f cache_ok_flush)
      from Cons.IH [OF l rr [THEN conjunct1] rr [THEN conjunct2] this]
      have "decode_chunks ?prev ?fl (enc_chunks ?e pxs) = pxs"
        using True cap by (simp add: f run_write_pixel)
      moreover have "replicate 62 px = px # replicate 61 px"
        by (simp add: replicate_Suc [symmetric] del: replicate_Suc)
      ultimately show ?thesis
        using True cap by (simp add: Let_def eq [symmetric] replicate_app_Cons_same)
    next
      case nocap: False
      have "cache_ok (prev_px ?e) (index ?e) didx"
        using Cons.prems(4) by (simp add: f)
      from Cons.IH [OF l rr [THEN conjunct1] rr [THEN conjunct2] this]
      have "decode_chunks ?prev didx (enc_chunks ?e pxs) =
          replicate (nat (run enc + 1)) ?prev @ pxs"
        using True nocap by (simp add: f run_write_pixel)
      moreover have "nat (run enc + 1) = Suc (nat (run enc))"
        using Cons.prems(2) by simp
      ultimately show ?thesis
        using True nocap by (simp add: eq [symmetric] replicate_app_Cons_same)
    qed
  next
    case False
    have f: "prev_px ?e = px" "index ?e = (index enc)[nat (qoi_color_hash px) := px]"
      "run ?e = 0"
      using False Cons.prems(2) by (auto simp add: write_pixel_fields)
    define d1 where "d1 = (if run enc > 0 then ?fl else didx)"
    have ok1: "cache_ok ?prev (index enc) d1"
      using Cons.prems(4) by (simp add: d1_def cache_ok_flush)
    have px: "chunk_pixel ?prev d1 (pixel_chunk ?prev (index enc) px) = px"
      using ok1 by (rule chunk_pixel_pixel_chunk)
    have "cache_ok (prev_px ?e) (index ?e) (d1[nat (qoi_color_hash px) := px])"
      using ok1 by (simp add: f cache_ok_step)
    from Cons.IH [OF l rr [THEN conjunct1] rr [THEN conjunct2] this]
    have ih: "decode_chunks px (d1[nat (qoi_color_hash px) := px]) (enc_chunks ?e pxs) = pxs"
      by (simp add: f)
    have tail: "decode_chunks ?prev d1
        (pixel_chunk ?prev (index enc) px # enc_chunks ?e pxs) = px # pxs"
      by (simp add: Let_def px ih chunk_count_not_run not_run_pixel_chunk
            del: chunk_pixel.simps)
    show ?thesis
    proof (cases "run enc > 0")
      case True
      then have "d1 = ?fl" by (simp add: d1_def)
      with tail True False Cons.prems(3) show ?thesis
        by (simp add: Let_def unat_run_byte)
    next
      case z: False
      then have "d1 = didx" "run enc = 0" using Cons.prems(2) by (simp_all add: d1_def)
      with tail False show ?thesis by simp
    qed
  qed
qed

text \<open>
  C1. At threshold 0 the reference decoder reads the opcode stream of any pixel
  sequence (initialisation, \<^verbatim>\<open>qoi_write_pixel\<close> for each pixel in order, the last
  flush) without running out of bytes, and the pixels it gives are exactly the pixels
  that were encoded.
\<close>

theorem lossless_round_trip: "qoi_decode (encode_stream 0 pxs) = Some pxs"
proof -
  have "decode_chunks (prev_px (qoi_encoder_init [] 0))
          (replicate 64 \<lparr> r = 0, g = 0, b = 0, a = 0 \<rparr>)
          (enc_chunks (qoi_encoder_init [] 0) pxs) =
        replicate (nat (run (qoi_encoder_init [] 0))) (prev_px (qoi_encoder_init [] 0)) @ pxs"
    by (rule decode_enc_chunks) (simp_all add: init_fields cache_ok_init)
  then show ?thesis
    by (simp add: qoi_decode_def chunks_encode_stream init_fields)
qed

end
